theory Spec2Isabelle
  imports Complex_Main
begin

section \<open>JavaScript strings\<close>

text \<open>
  A JavaScript string is a sequence of UTF-16 code units; \<open>length\<close> counts code units.
  The page texts handled by \<open>server.js\<close> contain Cyrillic, so a code unit is a natural
  number here and \<open>str\<close> embeds an ASCII literal.
\<close>

type_synonym jsstring = "nat list"

definition str :: "string \<Rightarrow> jsstring" where
  "str s = map of_char s"

text \<open>
  The label the table and text strategies look for (\<open>server.js\<close> lines 267 and 316):
  the Russian phrase for "recent trades", sixteen code units.
\<close>

definition LAST_TRADES :: jsstring where
  "LAST_TRADES = [1055, 1086, 1089, 1083, 1077, 1076, 1085, 1080, 1077, 32,
                  1089, 1076, 1077, 1083, 1082, 1080]"

text \<open>\<open>s.startsWith(p)\<close>, \<open>s.includes(p)\<close> (named \<open>str_includes\<close>) and \<open>s.indexOf(p)\<close> (\<open>None\<close> for -1).\<close>

fun starts_with :: "jsstring \<Rightarrow> jsstring \<Rightarrow> bool" where
  "starts_with s [] = True"
| "starts_with [] (c # p) = False"
| "starts_with (d # s) (c # p) = (d = c \<and> starts_with s p)"

fun str_includes :: "jsstring \<Rightarrow> jsstring \<Rightarrow> bool" where
  "str_includes [] p = (p = [])"
| "str_includes (c # s) p = (starts_with (c # s) p \<or> str_includes s p)"

fun indexOf :: "jsstring \<Rightarrow> jsstring \<Rightarrow> nat option" where
  "indexOf [] p = (if p = [] then Some 0 else None)"
| "indexOf (c # s) p =
     (if starts_with (c # s) p then Some 0
      else (case indexOf s p of None \<Rightarrow> None | Some i \<Rightarrow> Some (Suc i)))"

text \<open>\<open>s.substring(i)\<close> for an index inside the string.\<close>

definition substring :: "jsstring \<Rightarrow> nat \<Rightarrow> jsstring" where
  "substring s i = drop i s"

text \<open>
  White space and line terminators of ECMAScript, as skipped by \<open>trim()\<close> and by
  \<open>parseFloat\<close>.
\<close>

definition is_ws :: "nat \<Rightarrow> bool" where
  "is_ws c = (c \<in> {9, 10, 11, 12, 13, 32, 160, 5760, 8232, 8233, 8239, 8287, 12288, 65279}
              \<or> (8192 \<le> c \<and> c \<le> 8202))"

definition trim :: "jsstring \<Rightarrow> jsstring" where
  "trim s = rev (dropWhile is_ws (rev (dropWhile is_ws s)))"

text \<open>The class \<open>\d\<close> of a regular expression without the unicode flag: ASCII digits.\<close>

definition is_digit :: "nat \<Rightarrow> bool" where
  "is_digit c = (48 \<le> c \<and> c \<le> 57)"

definition digits_value :: "jsstring \<Rightarrow> nat" where
  "digits_value ds = foldl (\<lambda>a c. 10 * a + (c - 48)) 0 ds"

text \<open>
  \<open>text.match(/(\d{2,3}\.\d{1,2})/)\<close>: the leftmost match; at one position the
  quantifiers are greedy, three digits are tried before two and two decimals before one.
  \<open>match_here n s\<close> is the attempt with \<open>n\<close> integer digits at the start of \<open>s\<close>.
\<close>

definition match_here :: "nat \<Rightarrow> jsstring \<Rightarrow> jsstring option" where
  "match_here n s =
     (if n + 1 < length s \<and> list_all is_digit (take n s) \<and> s ! n = 46 \<and> is_digit (s ! (n + 1))
      then Some (take (n + 2) s @
                 (if n + 2 < length s \<and> is_digit (s ! (n + 2)) then [s ! (n + 2)] else []))
      else None)"

definition match_at :: "jsstring \<Rightarrow> jsstring option" where
  "match_at s = (case match_here 3 s of Some m \<Rightarrow> Some m | None \<Rightarrow> match_here 2 s)"

fun price_match :: "jsstring \<Rightarrow> jsstring option" where
  "price_match [] = None"
| "price_match (c # s) =
     (case match_at (c # s) of Some m \<Rightarrow> Some m | None \<Rightarrow> price_match s)"

section \<open>JavaScript numbers\<close>

text \<open>
  A Number is NaN, an infinity or a finite value. A finite double is represented by the
  exact rational it was read from: rounding to 53 significant bits is not modelled, the
  overflow to infinity and the underflow to zero of round-to-nearest are. Negative zero
  is not distinguished from zero (the code only compares with \<open>0\<close>).
\<close>

datatype jsnum = NaN | PosInf | NegInf | Fin rat

definition to_double :: "rat \<Rightarrow> jsnum" where
  "to_double q =
     (if 2 ^ 1024 - 2 ^ 970 \<le> \<bar>q\<bar> then (if 0 < q then PosInf else NegInf)
      else if \<bar>q\<bar> \<le> 1 / 2 ^ 1075 then Fin 0
      else Fin q)"

text \<open>The comparisons \<open>a <= b\<close> and \<open>a > b\<close> (and their mirrors); false on NaN.\<close>

fun js_le :: "jsnum \<Rightarrow> jsnum \<Rightarrow> bool" where
  "js_le NaN b = False"
| "js_le a NaN = False"
| "js_le NegInf b = True"
| "js_le a PosInf = True"
| "js_le PosInf b = False"
| "js_le a NegInf = False"
| "js_le (Fin x) (Fin y) = (x \<le> y)"

fun js_gt :: "jsnum \<Rightarrow> jsnum \<Rightarrow> bool" where
  "js_gt NaN b = False"
| "js_gt a NaN = False"
| "js_gt PosInf PosInf = False"
| "js_gt PosInf b = True"
| "js_gt a PosInf = False"
| "js_gt NegInf b = False"
| "js_gt a NegInf = True"
| "js_gt (Fin x) (Fin y) = (x > y)"

definition js_ge :: "jsnum \<Rightarrow> jsnum \<Rightarrow> bool" where
  "js_ge a b = js_le b a"

definition isNaN :: "jsnum \<Rightarrow> bool" where
  "isNaN n = (n = NaN)"

text \<open>
  \<open>parseFloat(s)\<close>: leading white space is skipped, then the longest prefix that is a
  \<open>StrDecimalLiteral\<close> is read: an optional sign, then \<open>Infinity\<close> or decimal digits
  with an optional fraction and an optional exponent. No such prefix gives NaN.
\<close>

definition exponent_part :: "jsstring \<Rightarrow> int" where
  "exponent_part r =
     (case r of
        [] \<Rightarrow> 0
      | e # r1 \<Rightarrow>
          if e = 101 \<or> e = 69 then
            (case r1 of
               [] \<Rightarrow> 0
             | g # r2 \<Rightarrow>
                 if g = 43 \<or> g = 45 then
                   (if takeWhile is_digit r2 = [] then 0
                    else (if g = 45 then - int (digits_value (takeWhile is_digit r2))
                          else int (digits_value (takeWhile is_digit r2))))
                 else int (digits_value (takeWhile is_digit r1)))
          else 0)"

definition scale10 :: "nat \<Rightarrow> int \<Rightarrow> rat" where
  "scale10 m e = (if 0 \<le> e then of_nat m * 10 ^ nat e else of_nat m / 10 ^ nat (- e))"

definition parse_unsigned :: "jsstring \<Rightarrow> jsnum" where
  "parse_unsigned s =
     (if starts_with s (str ''Infinity'') then PosInf
      else
        let ip = takeWhile is_digit s; r = dropWhile is_digit s;
            dot = (r \<noteq> [] \<and> hd r = 46);
            fp = (if dot then takeWhile is_digit (tl r) else []);
            r' = (if dot then dropWhile is_digit (tl r) else r)
        in if ip = [] \<and> fp = [] then NaN
           else to_double (scale10 (digits_value (ip @ fp)) (exponent_part r' - int (length fp))))"

definition js_neg :: "jsnum \<Rightarrow> jsnum" where
  "js_neg n = (case n of NaN \<Rightarrow> NaN | PosInf \<Rightarrow> NegInf | NegInf \<Rightarrow> PosInf | Fin q \<Rightarrow> Fin (- q))"

definition parseFloat :: "jsstring \<Rightarrow> jsnum" where
  "parseFloat s =
     (case dropWhile is_ws s of
        [] \<Rightarrow> NaN
      | c # t \<Rightarrow> if c = 45 then js_neg (parse_unsigned t)
                 else if c = 43 then parse_unsigned t
                 else parse_unsigned (c # t))"

text \<open>
  \<open>x.toFixed(2)\<close>. A non-finite value gives its name; a value of at least \<open>10^21\<close>
  gives the exponential form of \<open>String(x)\<close>; otherwise the integer \<open>n\<close> closest to
  \<open>100 * x\<close> (the larger one on a tie) is written with two decimals.
\<close>

definition digit_char :: "nat \<Rightarrow> nat" where
  "digit_char d = 48 + d"

fun digits_of :: "nat \<Rightarrow> jsstring" where
  "digits_of n = (if n < 10 then [digit_char n] else digits_of (n div 10) @ [digit_char (n mod 10)])"

definition fixed2 :: "rat \<Rightarrow> jsstring" where
  "fixed2 q =
     (let n = nat \<lfloor>q * 100 + 1 / 2\<rfloor>
      in digits_of (n div 100) @ [46, digit_char (n mod 100 div 10), digit_char (n mod 10)])"

definition exponential :: "rat \<Rightarrow> jsstring" where
  "exponential q =
     (let ds = digits_of (nat \<lfloor>q\<rfloor>);
          sig = rev (dropWhile (\<lambda>c. c = 48) (rev ds))
      in hd sig # (if tl sig = [] then [] else 46 # tl sig) @ str ''e+'' @ digits_of (length ds - 1))"

definition toFixed2 :: "jsnum \<Rightarrow> jsstring" where
  "toFixed2 n =
     (case n of
        NaN \<Rightarrow> str ''NaN''
      | PosInf \<Rightarrow> str ''Infinity''
      | NegInf \<Rightarrow> str ''-Infinity''
      | Fin q \<Rightarrow>
          if 10 ^ 21 \<le> \<bar>q\<bar> then (if q < 0 then 45 # exponential (- q) else exponential q)
          else if q < 0 then 45 # fixed2 (- q)
          else fixed2 q)"


section \<open>The page as the in-page scripts see it\<close>

text \<open>
  A value read from a page object. \<open>JObj s\<close> is an object (or array) whose conversion
  to a string gives \<open>s\<close>. \<open>truthy\<close> is the conversion to a boolean done by \<open>!\<close> and
  \<open>&&\<close>; \<open>parseFloat_val\<close> is \<open>parseFloat\<close> on any value, which first converts it to
  a string (a number is read back from its own string unchanged, a boolean, \<open>null\<close>
  and \<open>undefined\<close> give words that are no number).
\<close>

datatype jsval = JUndefined | JNull | JBool bool | JNum jsnum | JStr jsstring | JObj jsstring

fun truthy :: "jsval \<Rightarrow> bool" where
  "truthy JUndefined = False"
| "truthy JNull = False"
| "truthy (JBool b) = b"
| "truthy (JNum n) = (n \<noteq> NaN \<and> n \<noteq> Fin 0)"
| "truthy (JStr s) = (s \<noteq> [])"
| "truthy (JObj s) = True"

fun parseFloat_val :: "jsval \<Rightarrow> jsnum" where
  "parseFloat_val (JStr s) = parseFloat s"
| "parseFloat_val (JObj s) = parseFloat s"
| "parseFloat_val (JNum n) = n"
| "parseFloat_val v = NaN"

text \<open>
  \<open>window.gon\<close>: absent (or falsy), present without a truthy \<open>ticker\<close>, or present with
  a ticker whose field \<open>last\<close> holds a value (\<open>JUndefined\<close> when the field is missing).
\<close>

datatype gon = NoGon | NoTicker | Ticker jsval

text \<open>
  The DOM: an element has a lower-case tag name, the value of its \<open>class\<close> attribute
  (empty when it has none) and child nodes; the other nodes that matter are texts.
  An element is addressed by the child indices leading to it from the root element,
  so that \<open>container !== document.body\<close> compares positions, not contents.
\<close>

datatype node = Text jsstring | Element string jsstring "node list"

type_synonym path = "nat list"

fun textContent :: "node \<Rightarrow> jsstring" where
  "textContent (Text s) = s"
| "textContent (Element t c ks) = concat (map textContent ks)"

fun subtree_elements :: "node \<Rightarrow> node list" where
  "subtree_elements (Text s) = []"
| "subtree_elements (Element t c ks) = Element t c ks # concat (map subtree_elements ks)"

fun element_paths :: "path \<Rightarrow> node \<Rightarrow> path list"
  and child_paths :: "path \<Rightarrow> nat \<Rightarrow> node list \<Rightarrow> path list" where
  "element_paths p (Text s) = []"
| "element_paths p (Element t c ks) = p # child_paths p 0 ks"
| "child_paths p i [] = []"
| "child_paths p i (k # ks) = element_paths (p @ [i]) k @ child_paths p (Suc i) ks"

fun node_at :: "node \<Rightarrow> path \<Rightarrow> node option" where
  "node_at n [] = Some n"
| "node_at (Text s) (i # p) = None"
| "node_at (Element t c ks) (i # p) = (if i < length ks then node_at (ks ! i) p else None)"

text \<open>
  \<open>el.querySelectorAll(sel)\<close>: the descendant elements of \<open>el\<close> (not \<open>el\<close> itself)
  that match, in document order. The two selector lists of the table strategy:
  \<open>tr, [class*="row"], [class*="trade"]\<close> and \<open>td, [class*="cell"], div, span\<close>.
\<close>

definition querySelectorAll :: "(node \<Rightarrow> bool) \<Rightarrow> node \<Rightarrow> node list" where
  "querySelectorAll sel el = filter sel (tl (subtree_elements el))"

fun row_like :: "node \<Rightarrow> bool" where
  "row_like (Text s) = False"
| "row_like (Element t c ks) =
     (t = ''tr'' \<or> str_includes c (str ''row'') \<or> str_includes c (str ''trade''))"

fun cell_like :: "node \<Rightarrow> bool" where
  "cell_like (Text s) = False"
| "cell_like (Element t c ks) =
     (t = ''td'' \<or> str_includes c (str ''cell'') \<or> t = ''div'' \<or> t = ''span'')"

text \<open>
  \<open>document.body\<close>: the first child of the \<open>html\<close> root that is a \<open>body\<close> or a
  \<open>frameset\<close> element; \<open>None\<close> is \<open>null\<close>.
\<close>

fun first_index :: "('a \<Rightarrow> bool) \<Rightarrow> 'a list \<Rightarrow> nat option" where
  "first_index P [] = None"
| "first_index P (x # xs) =
     (if P x then Some 0 else (case first_index P xs of None \<Rightarrow> None | Some i \<Rightarrow> Some (Suc i)))"

fun body_like :: "node \<Rightarrow> bool" where
  "body_like (Text s) = False"
| "body_like (Element t c ks) = (t = ''body'' \<or> t = ''frameset'')"

fun document_body :: "node \<Rightarrow> path option" where
  "document_body (Text s) = None"
| "document_body (Element t c ks) =
     (if t = ''html'' then (case first_index body_like ks of None \<Rightarrow> None | Some i \<Rightarrow> Some [i])
      else None)"

record page =
  url :: jsstring
  content :: jsstring
  window_gon :: gon
  document :: node
  body_innerText :: jsstring

section \<open>The three extraction strategies\<close>

text \<open>
  Each strategy is the function that \<open>page.evaluate\<close> runs in the page; \<open>None\<close> is its
  \<open>null\<close>. First strategy, \<open>server.js\<close> lines 210 to 247.
\<close>

fun gon_strategy :: "gon \<Rightarrow> jsnum option" where
  "gon_strategy NoGon = None"
| "gon_strategy NoTicker = None"
| "gon_strategy (Ticker lastPrice) =
     (if \<not> truthy lastPrice then None
      else let parsed = parseFloat_val lastPrice
           in if isNaN parsed \<or> js_le parsed (Fin 0) then None else Some parsed)"

text \<open>The range check \<open>candidate >= 50 && candidate <= 150\<close> of lines 289 and 322.\<close>

definition in_price_range :: "jsnum \<Rightarrow> bool" where
  "in_price_range candidate = (js_ge candidate (Fin 50) \<and> js_le candidate (Fin 150))"

text \<open>
  Second strategy, lines 265 to 298. \<open>scan_cells\<close> is the \<open>for\<close> loop over the cells
  of the first data row, \<open>scan_container\<close> the body of the \<open>while\<close> loop for one
  container, \<open>ancestors\<close> the chain of \<open>parentElement\<close>s, nearest first.
\<close>

fun scan_cells :: "node list \<Rightarrow> jsnum option" where
  "scan_cells [] = None"
| "scan_cells (cell # cells) =
     (case price_match (trim (textContent cell)) of
        None \<Rightarrow> scan_cells cells
      | Some m \<Rightarrow>
          let candidate = parseFloat m
          in if in_price_range candidate then Some candidate else scan_cells cells)"

definition scan_container :: "node \<Rightarrow> jsnum option" where
  "scan_container container =
     (let rows = querySelectorAll row_like container
      in if length rows > 1 then scan_cells (querySelectorAll cell_like (rows ! 1)) else None)"

definition ancestors :: "path \<Rightarrow> path list" where
  "ancestors p = map (\<lambda>n. take n p) (rev [0..<length p])"

fun first_some :: "('a \<Rightarrow> 'b option) \<Rightarrow> 'a list \<Rightarrow> 'b option" where
  "first_some f [] = None"
| "first_some f (x # xs) = (case f x of Some y \<Rightarrow> Some y | None \<Rightarrow> first_some f xs)"

definition is_last_trades_section :: "node \<Rightarrow> path \<Rightarrow> bool" where
  "is_last_trades_section doc p =
     (case node_at doc p of
        None \<Rightarrow> False
      | Some el \<Rightarrow> textContent el \<noteq> [] \<and> str_includes (textContent el) LAST_TRADES
                   \<and> length (textContent el) < 100)"

definition table_strategy :: "node \<Rightarrow> jsnum option" where
  "table_strategy doc =
     (case find (is_last_trades_section doc) (element_paths [] doc) of
        None \<Rightarrow> None
      | Some lastTradesSection \<Rightarrow>
          first_some (\<lambda>q. case node_at doc q of None \<Rightarrow> None | Some container \<Rightarrow> scan_container container)
            (takeWhile (\<lambda>q. Some q \<noteq> document_body doc) (ancestors lastTradesSection)))"

text \<open>Third strategy, lines 315 to 328, on \<open>document.body.innerText\<close>.\<close>

definition text_strategy :: "jsstring \<Rightarrow> jsnum option" where
  "text_strategy bodyText =
     (case indexOf bodyText LAST_TRADES of
        None \<Rightarrow> None
      | Some lastTradesIndex \<Rightarrow>
          (case price_match (substring bodyText (lastTradesIndex + length LAST_TRADES)) of
             None \<Rightarrow> None
           | Some m \<Rightarrow>
               let candidate = parseFloat m
               in if in_price_range candidate then Some candidate else None))"

section \<open>The server state and the single-flight guard\<close>

text \<open>
  The module variables of \<open>server.js\<close> lines 55 to 59, together with the timers of the
  event loop that \<open>setTimeout\<close> and \<open>clearTimeout\<close> act on: a timer is a handle and
  the time at which it is due. Times are milliseconds, as \<open>Date.now()\<close> gives them.
\<close>

definition CACHE_TIME :: int where
  "CACHE_TIME = 30000"

definition WATCHDOG_DELAY :: int where
  "WATCHDOG_DELAY = 90000"

record server =
  isProcessing :: bool
  lastPrice :: "jsstring option"
  lastPriceTime :: int
  processingTimeout :: "nat option"
  timers :: "(nat \<times> int) list"
  next_timer :: nat

definition init :: server where
  "init = \<lparr>isProcessing = False, lastPrice = None, lastPriceTime = 0,
           processingTimeout = None, timers = [], next_timer = 0\<rparr>"

definition setTimeout :: "int \<Rightarrow> int \<Rightarrow> server \<Rightarrow> nat \<times> server" where
  "setTimeout delay now s =
     (next_timer s,
      s\<lparr>timers := timers s @ [(next_timer s, now + delay)], next_timer := Suc (next_timer s)\<rparr>)"

definition clearTimeout :: "nat \<Rightarrow> server \<Rightarrow> server" where
  "clearTimeout h s = s\<lparr>timers := filter (\<lambda>t. fst t \<noteq> h) (timers s)\<rparr>"

text \<open>
  The JSON bodies sent by the handler. A key that a body does not have is \<open>None\<close>.
  \<open>updated\<close> holds the instant whose \<open>toISOString()\<close> rendering is sent,
  \<open>method_tag\<close> is the key \<open>method\<close>. The texts
  of the error messages are Russian sentences in the source; each is a constructor here.
\<close>

datatype message =
    Busy_message
  | Blocked_redirect jsstring
  | Blocked_marker
  | Price_not_found
  | Default_message
  | Thrown jsstring

record response =
  status :: nat
  success :: bool
  price :: "jsstring option"
  updated :: "int option"
  method_tag :: "jsstring option"
  cached :: "bool option"
  error :: "message option"

definition cached_response :: "jsstring \<Rightarrow> int \<Rightarrow> response" where
  "cached_response p t =
     \<lparr>status = 200, success = True, price = Some p, updated = Some t, method_tag = None,
      cached = Some True, error = None\<rparr>"

definition busy_response :: response where
  "busy_response =
     \<lparr>status = 503, success = False, price = None, updated = None, method_tag = None,
      cached = None, error = Some Busy_message\<rparr>"

definition fresh_response :: "jsstring \<Rightarrow> int \<Rightarrow> jsstring \<Rightarrow> response" where
  "fresh_response p t m =
     \<lparr>status = 200, success = True, price = Some p, updated = Some t, method_tag = Some m,
      cached = None, error = None\<rparr>"

text \<open>
  \<open>error.message || default\<close> of line 367: an empty message gives the default text.
  The \<open>stack\<close> key of the 500 body is left out.
\<close>

definition failure_response :: "message \<Rightarrow> response" where
  "failure_response err =
     \<lparr>status = 500, success = False, price = None, updated = None, method_tag = None,
      cached = None, error = Some (if err = Thrown [] then Default_message else err)\<rparr>"

text \<open>
  Lines 64 to 88, the part of the handler that runs before its first \<open>await\<close>: a reply
  from the cache or a 503 when the flag is set, otherwise the flag is set and the
  watchdog armed (\<open>None\<close>: no reply yet, the caller is admitted).
\<close>

definition enter :: "int \<Rightarrow> server \<Rightarrow> response option \<times> server" where
  "enter now s =
     (if isProcessing s then
        (case lastPrice s of
           None \<Rightarrow> (Some busy_response, s)
         | Some p \<Rightarrow>
             if p \<noteq> [] \<and> now - lastPriceTime s < CACHE_TIME
             then (Some (cached_response p (lastPriceTime s)), s)
             else (Some busy_response, s))
      else
        (case setTimeout WATCHDOG_DELAY now (s\<lparr>isProcessing := True\<rparr>) of
           (h, s1) \<Rightarrow> (None, s1\<lparr>processingTimeout := Some h\<rparr>)))"

text \<open>The callback of the watchdog timer, lines 83 to 88.\<close>

definition watchdog :: "server \<Rightarrow> server" where
  "watchdog s = (if isProcessing s then s\<lparr>isProcessing := False\<rparr> else s)"

text \<open>The cache write of lines 347 and 348; \<open>parseFloat\<close> of a number reads it back.\<close>

definition store_quote :: "jsnum \<Rightarrow> int \<Rightarrow> server \<Rightarrow> server" where
  "store_quote p now s = s\<lparr>lastPrice := Some (toFixed2 p), lastPriceTime := now\<rparr>"

text \<open>The end of the \<open>finally\<close> block, lines 389 to 393.\<close>

definition release_guard :: "server \<Rightarrow> server" where
  "release_guard s =
     (case processingTimeout s of
        None \<Rightarrow> s\<lparr>isProcessing := False\<rparr>
      | Some h \<Rightarrow> (clearTimeout h (s\<lparr>isProcessing := False\<rparr>))\<lparr>processingTimeout := None\<rparr>)"

text \<open>
  The \<open>unhandledRejection\<close> handler, lines 399 to 408. The \<open>uncaughtException\<close>
  handler of lines 410 to 420 does the same and then ends the process; it is not modelled.
\<close>

definition unhandledRejection :: "server \<Rightarrow> server" where
  "unhandledRejection s = (if isProcessing s then release_guard s else s)"

section \<open>One acquisition\<close>

text \<open>
  The awaited browser calls of the handler, in the order of the source:
  \<open>chromium.launch\<close> (line 98), \<open>browser.newContext\<close> (104), \<open>context.newPage\<close>
  (109), \<open>page.goto\<close> of the home page (116), \<open>waitForTimeout(2000)\<close> (120),
  \<open>page.goto\<close> of the trading page (130), \<open>waitForTimeout(5000)\<close> (141),
  \<open>page.content\<close> (144), \<open>page.waitForFunction\<close> (169), \<open>waitForTimeout(10000)\<close>
  (183), the probing \<open>page.evaluate\<close> (186), the three \<open>page.evaluate\<close> calls of the
  strategies (209, 264, 314), \<open>context.close\<close> (374) and \<open>browser.close\<close> (382).

  What the browser and the site do is the environment: for each call whether it rejects
  (and with which message), the page that the trading URL gave, and the clock readings
  of lines 348 and 354. Every awaited call is taken to settle, and the page is one
  snapshot: what \<open>page.content()\<close>, \<open>page.url()\<close> and the in-page functions see.
\<close>

datatype call =
    Launch | NewContext | NewPage
  | GotoHome | WaitCookies | GotoTrading | WaitScripts | Content
  | WaitForGon | WaitGrace | GonCheck
  | EvalGon | EvalTable | EvalText
  | CloseContext | CloseBrowser

record env =
  rejects :: "call \<Rightarrow> jsstring option"
  trading_page :: page
  store_time :: int
  reply_time :: int

text \<open>
  A piece of the handler takes the calls made so far and gives a thrown error or a
  value, with the calls extended. \<open>seq\<close> is sequencing inside one \<open>try\<close>,
  \<open>swallow\<close> a \<open>try\<close> whose \<open>catch\<close> only logs.
\<close>

type_synonym 'a proc = "call list \<Rightarrow> (message + 'a) \<times> call list"

definition await :: "env \<Rightarrow> call \<Rightarrow> unit proc" where
  "await e c calls =
     (case rejects e c of
        None \<Rightarrow> (Inr (), calls @ [c])
      | Some m \<Rightarrow> (Inl (Thrown m), calls @ [c]))"

definition seq :: "unit proc \<Rightarrow> 'a proc \<Rightarrow> 'a proc" where
  "seq p q calls = (case p calls of (Inl err, calls1) \<Rightarrow> (Inl err, calls1) | (Inr u, calls1) \<Rightarrow> q calls1)"

definition swallow :: "unit proc \<Rightarrow> unit proc" where
  "swallow p calls = (Inr (), snd (p calls))"

definition skip :: "unit proc" where
  "skip calls = (Inr (), calls)"

text \<open>Lines 98 to 109.\<close>

definition open_session :: "env \<Rightarrow> unit proc" where
  "open_session e = seq (await e Launch) (seq (await e NewContext) (await e NewPage))"

text \<open>Lines 115 to 141: both navigations are swallowed, the wait after them is not.\<close>

definition navigate :: "env \<Rightarrow> unit proc" where
  "navigate e =
     seq (swallow (seq (await e GotoHome) (await e WaitCookies)))
       (seq (swallow (await e GotoTrading)) (await e WaitScripts))"

text \<open>Lines 144 to 162, the block detection.\<close>

definition block_check :: "env \<Rightarrow> unit proc" where
  "block_check e =
     seq (await e Content)
       (\<lambda>calls.
          let pageContent = content (trading_page e); pageUrl = url (trading_page e)
          in if str_includes pageUrl (str ''exhkqyad'') \<or> str_includes pageUrl (str ''servicepipe.ru'')
             then (Inl (Blocked_redirect pageUrl), calls)
             else if str_includes pageContent (str ''servicepipe.ru'') \<and> length pageContent < 5000
             then (Inl Blocked_marker, calls)
             else (Inr (), calls))"

text \<open>Lines 167 to 200: when the wait for \<open>window.gon\<close> rejects, a grace period and a probe.\<close>

definition wait_for_gon :: "env \<Rightarrow> unit proc" where
  "wait_for_gon e calls =
     (case await e WaitForGon calls of
        (Inl err, calls1) \<Rightarrow> seq (await e WaitGrace) (await e GonCheck) calls1
      | (Inr u, calls1) \<Rightarrow> (Inr (), calls1))"

text \<open>
  Lines 203 to 338. The variables \<open>price\<close> and \<open>method\<close> are a pair. \<open>usable\<close> is
  the test \<open>price && price > 0\<close>, \<open>unusable\<close> the test \<open>!price || price <= 0\<close>.
  \<open>evaluate\<close> is one \<open>try\<close> block: the result of \<open>page.evaluate\<close> is assigned to
  \<open>price\<close>, and \<open>method\<close> is set when the price is usable; a rejection, or an error
  thrown by the in-page function, is caught and leaves both variables as they were.
\<close>

type_synonym extraction = "jsnum option \<times> jsstring option"

fun usable :: "jsnum option \<Rightarrow> bool" where
  "usable None = False"
| "usable (Some n) = (n \<noteq> NaN \<and> n \<noteq> Fin 0 \<and> js_gt n (Fin 0))"

fun unusable :: "jsnum option \<Rightarrow> bool" where
  "unusable None = True"
| "unusable (Some n) = (n = NaN \<or> n = Fin 0 \<or> js_le n (Fin 0))"

definition GON_TAG :: jsstring where
  "GON_TAG = str ''window.gon.ticker.last''"

definition TABLE_TAG :: jsstring where
  "TABLE_TAG = str ''table ('' @ LAST_TRADES @ str '')''"

definition TEXT_TAG :: jsstring where
  "TEXT_TAG = str ''text ('' @ LAST_TRADES @ str '')''"

definition evaluate ::
  "env \<Rightarrow> call \<Rightarrow> (message + jsnum option) \<Rightarrow> jsstring \<Rightarrow> extraction \<Rightarrow> call list
     \<Rightarrow> extraction \<times> call list" where
  "evaluate e c in_page tag x calls =
     (case rejects e c of
        Some m \<Rightarrow> (x, calls @ [c])
      | None \<Rightarrow>
          (case in_page of
             Inl err \<Rightarrow> (x, calls @ [c])
           | Inr result \<Rightarrow> ((result, if usable result then Some tag else snd x), calls @ [c])))"

text \<open>The third in-page function reads \<open>document.body.innerText\<close>: a TypeError without a body.\<close>

definition text_in_page :: "page \<Rightarrow> message + jsnum option" where
  "text_in_page pg =
     (case document_body (document pg) of
        None \<Rightarrow> Inl (Thrown (str ''TypeError''))
      | Some b \<Rightarrow> Inr (text_strategy (body_innerText pg)))"

definition extract_chain :: "env \<Rightarrow> call list \<Rightarrow> extraction \<times> call list" where
  "extract_chain e calls =
     (let pg = trading_page e;
          r1 = evaluate e EvalGon (Inr (gon_strategy (window_gon pg))) GON_TAG (None, None) calls;
          r2 = (if unusable (fst (fst r1))
                then evaluate e EvalTable (Inr (table_strategy (document pg))) TABLE_TAG (fst r1) (snd r1)
                else r1);
          r3 = (if unusable (fst (fst r2))
                then evaluate e EvalText (text_in_page pg) TEXT_TAG (fst r2) (snd r2)
                else r2)
      in r3)"

text \<open>
  What each strategy yields in an environment: the result of its in-page function,
  or nothing when the \<open>page.evaluate\<close> call rejects or the function throws.
\<close>

definition gon_yield :: "env \<Rightarrow> jsnum option" where
  "gon_yield e =
     (if rejects e EvalGon = None then gon_strategy (window_gon (trading_page e)) else None)"

definition table_yield :: "env \<Rightarrow> jsnum option" where
  "table_yield e =
     (if rejects e EvalTable = None then table_strategy (document (trading_page e)) else None)"

definition text_yield :: "env \<Rightarrow> jsnum option" where
  "text_yield e =
     (if rejects e EvalText = None
      then (case text_in_page (trading_page e) of Inl err \<Rightarrow> None | Inr result \<Rightarrow> result)
      else None)"

text \<open>Lines 342 to 344 and the \<open>method || 'unknown'\<close> of line 355.\<close>

definition quote_of :: "extraction \<Rightarrow> message + jsnum \<times> jsstring" where
  "quote_of x =
     (case fst x of
        None \<Rightarrow> Inl Price_not_found
      | Some p \<Rightarrow>
          if unusable (Some p) then Inl Price_not_found
          else Inr (p, case snd x of None \<Rightarrow> str ''unknown'' | Some m \<Rightarrow> if m = [] then str ''unknown'' else m))"

text \<open>The \<open>try\<close> block up to the point where the price is known.\<close>

definition try_body :: "env \<Rightarrow> (jsnum \<times> jsstring) proc" where
  "try_body e =
     seq (open_session e)
       (seq (navigate e)
          (seq (block_check e)
             (seq (wait_for_gon e)
                (\<lambda>calls. case extract_chain e calls of (x, calls1) \<Rightarrow> (quote_of x, calls1)))))"

text \<open>The \<open>try\<close> block before the extraction starts at line 203.\<close>

definition before_extraction :: "env \<Rightarrow> unit proc" where
  "before_extraction e =
     seq (open_session e) (seq (navigate e) (seq (block_check e) (wait_for_gon e)))"

text \<open>
  Lines 372 to 387 of the \<open>finally\<close> block. \<open>context\<close> and \<open>browser\<close> are defined
  when the call that assigns them was made and did not reject.
\<close>

definition defined_by :: "env \<Rightarrow> call \<Rightarrow> call list \<Rightarrow> bool" where
  "defined_by e c calls = (c \<in> set calls \<and> rejects e c = None)"

definition close_session :: "env \<Rightarrow> unit proc" where
  "close_session e calls =
     seq (if defined_by e NewContext calls then swallow (await e CloseContext) else skip)
       (if defined_by e Launch calls then swallow (await e CloseBrowser) else skip) calls"

text \<open>
  The handler of \<open>GET /api/price\<close> run without another request or timer in between:
  the reply, the state left behind and the browser calls made.
\<close>

definition api_price :: "env \<Rightarrow> int \<Rightarrow> server \<Rightarrow> response \<times> server \<times> call list" where
  "api_price e now s =
     (case enter now s of
        (Some reply, s1) \<Rightarrow> (reply, s1, [])
      | (None, s1) \<Rightarrow>
          (case try_body e [] of
             (Inr (p, m), calls) \<Rightarrow>
               (fresh_response (toFixed2 p) (reply_time e) m,
                release_guard (store_quote p (store_time e) s1),
                snd (close_session e calls))
           | (Inl err, calls) \<Rightarrow>
               (failure_response err, release_guard s1, snd (close_session e calls))))"

section \<open>Requests, timers and cleanups interleaved\<close>

text \<open>
  The handler suspends at every \<open>await\<close>; between two suspensions it runs alone. What
  touches the guard and the cache are four pieces: the entry, the cache write, the end
  of \<open>finally\<close>, and the two callbacks. An event is one of these pieces run by the event
  loop. \<open>in_flight\<close> lists the admitted requests whose handler has not reached the end
  of its \<open>finally\<close> block: each of them has launched a browser of its own.
\<close>

datatype event =
    Request nat int
  | Stored nat jsnum int
  | Finished nat
  | TimerFired nat int
  | Rejection

record system =
  srv :: server
  in_flight :: "nat list"

definition start :: system where
  "start = \<lparr>srv = init, in_flight = []\<rparr>"

definition due :: "nat \<Rightarrow> int \<Rightarrow> server \<Rightarrow> bool" where
  "due h now s = list_ex (\<lambda>t. fst t = h \<and> snd t \<le> now) (timers s)"

fun step :: "event \<Rightarrow> system \<Rightarrow> system" where
  "step (Request r now) y =
     (if r \<in> set (in_flight y) then y
      else (case enter now (srv y) of
              (Some reply, s1) \<Rightarrow> y\<lparr>srv := s1\<rparr>
            | (None, s1) \<Rightarrow> y\<lparr>srv := s1, in_flight := in_flight y @ [r]\<rparr>))"
| "step (Stored r p now) y =
     (if r \<in> set (in_flight y) \<and> \<not> unusable (Some p) then y\<lparr>srv := store_quote p now (srv y)\<rparr> else y)"
| "step (Finished r) y =
     (if r \<in> set (in_flight y)
      then y\<lparr>srv := release_guard (srv y), in_flight := removeAll r (in_flight y)\<rparr>
      else y)"
| "step (TimerFired h now) y =
     (if due h now (srv y) then y\<lparr>srv := watchdog (clearTimeout h (srv y))\<rparr> else y)"
| "step Rejection y = y\<lparr>srv := unhandledRejection (srv y)\<rparr>"

definition run :: "event list \<Rightarrow> system \<Rightarrow> system" where
  "run evs y = foldl (\<lambda>y ev. step ev y) y evs"

text \<open>The events that reset the guard from outside the acquisition that set it.\<close>

fun forced_reset :: "event \<Rightarrow> bool" where
  "forced_reset (TimerFired h now) = True"
| "forced_reset Rejection = True"
| "forced_reset ev = False"

text \<open>
  \<open>held_throughout evs y\<close>: the flag is set in \<open>y\<close> and after every event of \<open>evs\<close>,
  that is, nothing cleared the guard while \<open>evs\<close> ran.
\<close>

fun held_throughout :: "event list \<Rightarrow> system \<Rightarrow> bool" where
  "held_throughout [] y = isProcessing (srv y)"
| "held_throughout (ev # evs) y = (isProcessing (srv y) \<and> held_throughout evs (step ev y))"

section \<open>Example inputs\<close>

text \<open>
  An environment in which no browser call rejects, around a given page; a page of the
  trading URL with a given \<open>window.gon\<close>, an empty body and no rendered text.
\<close>

definition quiet :: "call \<Rightarrow> jsstring option" where
  "quiet c = None"

definition env_of :: "page \<Rightarrow> env" where
  "env_of pg = \<lparr>rejects = quiet, trading_page = pg, store_time = 1000, reply_time = 1001\<rparr>"

definition gon_page :: "gon \<Rightarrow> page" where
  "gon_page g =
     \<lparr>url = str ''https://grinex.io/trading/usdta7a5'', content = str ''<html></html>'',
      window_gon = g,
      document = Element ''html'' [] [Element ''head'' [] [], Element ''body'' [] []],
      body_innerText = []\<rparr>"

text \<open>
  An environment in which exactly one browser call rejects; a page that the
  bot protection redirected; a short page that carries the vendor marker.
\<close>

definition failing :: "call \<Rightarrow> call \<Rightarrow> jsstring option" where
  "failing c c' = (if c' = c then Some (str ''Target closed'') else None)"

definition redirected_page :: page where
  "redirected_page = (gon_page (Ticker (JStr (str ''87.45''))))\<lparr>url := str ''https://servicepipe.ru/c''\<rparr>"

definition challenge_page :: page where
  "challenge_page =
     (gon_page (Ticker (JStr (str ''87.45''))))\<lparr>content := str ''<script src=servicepipe.ru>''\<rparr>"


definition trades_table :: node where
  "trades_table =
     Element ''table'' []
       [Element ''tr'' [] [Element ''th'' [] [Text (str ''Price'')]],
        Element ''tr'' []
          [Element ''td'' [] [Text (str ''12:00'')],
           Element ''td'' [] [Text (str ''1000.5'')],
           Element ''td'' [] [Text (str '' 92.10 '')]]]"

definition table_page :: page where
  "table_page =
     (gon_page NoGon)\<lparr>document :=
        Element ''html'' []
          [Element ''head'' [] [],
           Element ''body'' []
             [Element ''div'' (str ''panel'')
                [Element ''p'' [] [Text (replicate 100 120)],
                 Element ''h3'' [] [Text LAST_TRADES],
                 trades_table]]]\<rparr>"

text \<open>An idle server whose cache holds a price stored at time 5000.\<close>

definition cached_state :: server where
  "cached_state =
     \<lparr>isProcessing = False, lastPrice = Some (str ''87.45''), lastPriceTime = 5000,
      processingTimeout = None, timers = [], next_timer = 1\<rparr>"

text \<open>
  \<open>makes_only C p\<close>: whatever calls were made before, \<open>p\<close> keeps them and adds only
  calls from \<open>C\<close>.
\<close>

definition makes_only :: "call set \<Rightarrow> 'a proc \<Rightarrow> bool" where
  "makes_only C p = (\<forall>calls. \<exists>more. snd (p calls) = calls @ more \<and> set more \<subseteq> C)"

section \<open>Basic facts\<close>

lemma floor_rat_numeral: "\<lfloor>numeral a / numeral b :: rat\<rfloor> = numeral a div numeral b"
  by (metis floor_divide_of_int_eq of_int_numeral)


lemma toFixed2_example: "toFixed2 (Fin (1749 / 20)) = str ''87.45''"
  by (simp add: toFixed2_def fixed2_def digit_char_def str_def Let_def floor_rat_numeral)

lemma run_snoc: "run (evs @ [ev]) y = step ev (run evs y)"
  by (simp add: run_def)

lemma run_Cons: "run (ev # evs) y = run evs (step ev y)"
  by (simp add: run_def)

lemma run_Nil: "run [] y = y"
  by (simp add: run_def)

subsection \<open>Which pieces touch the cache\<close>

lemma enter_cache:
  "lastPrice (snd (enter now s)) = lastPrice s \<and> lastPriceTime (snd (enter now s)) = lastPriceTime s"
  by (simp add: enter_def setTimeout_def split: option.splits)

lemma release_guard_cache:
  "lastPrice (release_guard s) = lastPrice s \<and> lastPriceTime (release_guard s) = lastPriceTime s"
  by (simp add: release_guard_def clearTimeout_def split: option.splits)

lemma watchdog_cache:
  "lastPrice (watchdog s) = lastPrice s \<and> lastPriceTime (watchdog s) = lastPriceTime s"
  by (simp add: watchdog_def)

lemma clearTimeout_cache:
  "lastPrice (clearTimeout h s) = lastPrice s \<and> lastPriceTime (clearTimeout h s) = lastPriceTime s"
  by (simp add: clearTimeout_def)

lemma unhandledRejection_cache:
  "lastPrice (unhandledRejection s) = lastPrice s
   \<and> lastPriceTime (unhandledRejection s) = lastPriceTime s"
  by (simp add: unhandledRejection_def release_guard_cache)



lemma run_admitted_then_stored:
  "run [Request 1 0, Stored 1 (Fin (1749 / 20)) 5000] start =
     \<lparr>srv = \<lparr>isProcessing = True, lastPrice = Some (str ''87.45''), lastPriceTime = 5000,
             processingTimeout = Some 0, timers = [(0, 90000)], next_timer = 1\<rparr>,
      in_flight = [1]\<rparr>"
  by (simp add: run_def start_def init_def enter_def setTimeout_def store_quote_def
        toFixed2_example WATCHDOG_DELAY_def)


section \<open>Callers that arrive while an acquisition is in flight\<close>



section \<open>How many acquisitions run at once\<close>

lemma step_flight_bound:
  assumes "length (in_flight y) \<le> n + (if isProcessing (srv y) then 1 else 0)"
  shows "length (in_flight (step ev y))
           \<le> n + (if forced_reset ev then 1 else 0) + (if isProcessing (srv (step ev y)) then 1 else 0)"
proof (cases ev)
  case (Request r now)
  then show ?thesis using assms
    by (auto simp: enter_def setTimeout_def split: option.splits if_splits)
next
  case (Stored r p now)
  then show ?thesis using assms by (auto simp: store_quote_def)
next
  case (Finished r)
  show ?thesis
  proof (cases "r \<in> set (in_flight y)")
    case True
    then have "length (removeAll r (in_flight y)) < length (in_flight y)"
      by (rule length_removeAll_less)
    then show ?thesis using assms Finished True
      by (auto split: if_splits)
  next
    case False
    then show ?thesis using assms Finished by simp
  qed
next
  case (TimerFired h now)
  then show ?thesis using assms
    by (auto simp: watchdog_def clearTimeout_def split: if_splits)
next
  case Rejection
  then show ?thesis using assms
    by (auto simp: unhandledRejection_def release_guard_def clearTimeout_def split: if_splits option.splits)
qed

lemma run_flight_bound:
  "length (in_flight (run evs start))
     \<le> length (filter forced_reset evs) + (if isProcessing (srv (run evs start)) then 1 else 0)"
proof (induction evs rule: rev_induct)
  case Nil
  then show ?case by (simp add: run_def start_def init_def)
next
  case (snoc ev evs)
  from step_flight_bound [OF snoc.IH, of ev] show ?case
    by (cases "forced_reset ev") (auto simp: run_snoc split: if_splits)
qed

lemma enter_busy:
  assumes "isProcessing s"
  shows "snd (enter now s) = s"
    and "fst (enter now s) = Some busy_response
         \<or> (\<exists>p. lastPrice s = Some p \<and> fst (enter now s) = Some (cached_response p (lastPriceTime s)))"
  using assms by (auto simp: enter_def split: option.splits)

text \<open>
  C1, amended. In any state the server can reach, a caller that finds the flag set is
  not admitted: the state is unchanged (no acquisition starts) and the reply is the
  cached price or the 503 failure. The number of acquisitions in flight is at most the
  number of forced resets (watchdog firings and \<open>unhandledRejection\<close> callbacks) so
  far, plus one while the flag is set; so at most one acquisition runs at a time as
  long as no forced reset has happened.
\<close>

theorem single_flight_unless_forced_reset:
  "(isProcessing (srv (run evs start)) \<longrightarrow>
       step (Request r now) (run evs start) = run evs start
       \<and> (fst (enter now (srv (run evs start))) = Some busy_response
          \<or> (\<exists>p. lastPrice (srv (run evs start)) = Some p
                \<and> fst (enter now (srv (run evs start)))
                    = Some (cached_response p (lastPriceTime (srv (run evs start)))))))
   \<and> length (in_flight (run evs start))
       \<le> length (filter forced_reset evs) + (if isProcessing (srv (run evs start)) then 1 else 0)
   \<and> (\<not> list_ex forced_reset evs \<longrightarrow> length (in_flight (run evs start)) \<le> 1)"
proof (intro conjI impI)
  assume busy: "isProcessing (srv (run evs start))"
  have "enter now (srv (run evs start)) = (fst (enter now (srv (run evs start))), srv (run evs start))"
    using enter_busy(1) [OF busy, of now] by (metis prod.collapse)
  moreover have "fst (enter now (srv (run evs start))) \<noteq> None"
    using enter_busy(2) [OF busy, of now] by auto
  ultimately show "step (Request r now) (run evs start) = run evs start"
    by (cases "fst (enter now (srv (run evs start)))") (auto split: prod.splits)
  show "fst (enter now (srv (run evs start))) = Some busy_response
          \<or> (\<exists>p. lastPrice (srv (run evs start)) = Some p
                \<and> fst (enter now (srv (run evs start)))
                    = Some (cached_response p (lastPriceTime (srv (run evs start)))))"
    using enter_busy(2) [OF busy] .
next
  show "length (in_flight (run evs start))
       \<le> length (filter forced_reset evs) + (if isProcessing (srv (run evs start)) then 1 else 0)"
    by (rule run_flight_bound)
next
  assume "\<not> list_ex forced_reset evs"
  then have "filter forced_reset evs = []"
    by (simp add: list_ex_iff filter_empty_conv)
  with run_flight_bound [of evs] show "length (in_flight (run evs start)) \<le> 1"
    by (simp split: if_splits)
qed

lemma run_two_requests:
  "run [Request 1 0, Request 2 10] start =
     \<lparr>srv = \<lparr>isProcessing = True, lastPrice = None, lastPriceTime = 0,
             processingTimeout = Some 0, timers = [(0, 90000)], next_timer = 1\<rparr>,
      in_flight = [1]\<rparr>"
  by (simp add: run_def start_def init_def enter_def setTimeout_def WATCHDOG_DELAY_def)

theorem single_flight_unless_forced_reset_witness:
  "\<not> list_ex forced_reset [Request 1 0, Request 2 10]
   \<and> isProcessing (srv (run [Request 1 0, Request 2 10] start))
   \<and> step (Request 3 20) (run [Request 1 0, Request 2 10] start) = run [Request 1 0, Request 2 10] start
   \<and> fst (enter 20 (srv (run [Request 1 0, Request 2 10] start))) = Some busy_response
   \<and> length (in_flight (run [Request 1 0, Request 2 10] start)) \<le> 1"
proof -
  have a: "\<not> list_ex forced_reset [Request 1 0, Request 2 10]" by simp
  have b: "isProcessing (srv (run [Request 1 0, Request 2 10] start))"
    unfolding run_two_requests by simp
  have c: "lastPrice (srv (run [Request 1 0, Request 2 10] start)) = None"
    unfolding run_two_requests by simp
  show ?thesis
    using single_flight_unless_forced_reset [of "[Request 1 0, Request 2 10]" 3 20] a b c
    by simp
qed

text \<open>
  C1 as stated fails: the first acquisition is still running when its watchdog fires
  after 90 seconds, the flag is reset, and the next caller launches a second browser.
\<close>

theorem second_acquisition_after_watchdog:
  "in_flight (run [Request 1 0, TimerFired 0 90000, Request 2 90001] start) = [1, 2]"
  by (simp add: run_def start_def init_def enter_def setTimeout_def WATCHDOG_DELAY_def
        due_def clearTimeout_def watchdog_def)

section \<open>The watchdog\<close>

lemma held_throughout_flag: "held_throughout evs y \<Longrightarrow> isProcessing (srv y)"
  by (cases evs) simp_all

lemma step_keeps_watchdog:
  assumes "isProcessing (srv y)" and "processingTimeout (srv y) = Some h"
    and "(h, d) \<in> set (timers (srv y))" and "isProcessing (srv (step ev y))"
  shows "processingTimeout (srv (step ev y)) = Some h \<and> (h, d) \<in> set (timers (srv (step ev y)))"
proof (cases ev)
  case (Request r now)
  then show ?thesis using assms
    by (auto simp: enter_def split: option.splits if_splits)
next
  case (Stored r p now)
  then show ?thesis using assms by (auto simp: store_quote_def)
next
  case (Finished r)
  then show ?thesis using assms
    by (auto simp: release_guard_def clearTimeout_def split: option.splits if_splits)
next
  case (TimerFired k now)
  then show ?thesis using assms
    by (auto simp: watchdog_def clearTimeout_def split: if_splits)
next
  case Rejection
  then show ?thesis using assms
    by (auto simp: unhandledRejection_def release_guard_def clearTimeout_def split: option.splits if_splits)
qed

lemma run_keeps_watchdog:
  assumes "held_throughout evs y" and "processingTimeout (srv y) = Some h"
    and "(h, d) \<in> set (timers (srv y))"
  shows "isProcessing (srv (run evs y)) \<and> processingTimeout (srv (run evs y)) = Some h
         \<and> (h, d) \<in> set (timers (srv (run evs y)))"
  using assms
proof (induction evs arbitrary: y)
  case Nil
  then show ?case by (simp add: run_Nil)
next
  case (Cons ev evs)
  from Cons.prems(1) have flag: "isProcessing (srv y)" and rest: "held_throughout evs (step ev y)"
    by simp_all
  from rest have flag': "isProcessing (srv (step ev y))"
    by (rule held_throughout_flag)
  from step_keeps_watchdog [OF flag Cons.prems(2) Cons.prems(3) flag']
  have "processingTimeout (srv (step ev y)) = Some h" and "(h, d) \<in> set (timers (srv (step ev y)))"
    by simp_all
  from Cons.IH [OF rest this] show ?case
    by (simp add: run_Cons)
qed

lemma admitted_arms_watchdog:
  assumes "\<not> isProcessing (srv y)" and "r \<notin> set (in_flight y)"
  shows "isProcessing (srv (step (Request r now) y))"
    and "processingTimeout (srv (step (Request r now) y)) = Some (next_timer (srv y))"
    and "(next_timer (srv y), now + 90000) \<in> set (timers (srv (step (Request r now) y)))"
    and "in_flight (step (Request r now) y) = in_flight y @ [r]"
  using assms by (simp_all add: enter_def setTimeout_def WATCHDOG_DELAY_def)

lemma fired_resets:
  assumes "(h, d) \<in> set (timers (srv y))" and "d \<le> t"
  shows "\<not> isProcessing (srv (step (TimerFired h t) y))"
    and "in_flight (step (TimerFired h t) y) = in_flight y"
proof -
  have "due h t (srv y)"
    using assms by (force simp: due_def list_ex_iff)
  then show "\<not> isProcessing (srv (step (TimerFired h t) y))"
    and "in_flight (step (TimerFired h t) y) = in_flight y"
    by (simp_all add: watchdog_def)
qed

text \<open>
  C8. A caller is admitted at time \<open>now\<close> and, whatever happens afterwards, the flag
  is never cleared. Then the watchdog timer armed at the admission is still pending
  with its due time \<open>now + 90000\<close>; once the event loop runs it, at or after that time,
  the flag is reset, and the next caller is admitted. Run on an idle guard, the
  watchdog callback changes nothing.
\<close>

theorem watchdog_unblocks_after_deadline:
  assumes "\<not> isProcessing (srv y)" and "r \<notin> set (in_flight y)"
    and "held_throughout evs (step (Request r now) y)"
    and "now + 90000 \<le> t"
    and "r' \<notin> set (in_flight (run evs (step (Request r now) y)))"
  shows "(next_timer (srv y), now + 90000) \<in> set (timers (srv (run evs (step (Request r now) y))))
       \<and> \<not> isProcessing (srv (step (TimerFired (next_timer (srv y)) t) (run evs (step (Request r now) y))))
       \<and> r' \<in> set (in_flight (step (Request r' t')
                 (step (TimerFired (next_timer (srv y)) t) (run evs (step (Request r now) y)))))
       \<and> watchdog (srv y) = srv y"
proof -
  let ?h = "next_timer (srv y)"
  let ?y1 = "step (Request r now) y"
  let ?y2 = "run evs ?y1"
  let ?y3 = "step (TimerFired ?h t) ?y2"
  note adm = admitted_arms_watchdog [OF assms(1) assms(2), of now]
  from run_keeps_watchdog [OF assms(3) adm(2) adm(3)]
  have armed: "(?h, now + 90000) \<in> set (timers (srv ?y2))" by simp
  from fired_resets [OF armed assms(4)]
  have idle: "\<not> isProcessing (srv ?y3)" and same: "in_flight ?y3 = in_flight ?y2"
    by simp_all
  from assms(5) same have "r' \<notin> set (in_flight ?y3)" by simp
  from admitted_arms_watchdog(4) [OF idle this, of t']
  have "r' \<in> set (in_flight (step (Request r' t') ?y3))" by simp
  moreover have "watchdog (srv y) = srv y"
    using assms(1) by (simp add: watchdog_def)
  ultimately show ?thesis using armed idle by simp
qed

lemma step_first_request:
  "step (Request 1 0) start =
     \<lparr>srv = \<lparr>isProcessing = True, lastPrice = None, lastPriceTime = 0,
             processingTimeout = Some 0, timers = [(0, 90000)], next_timer = 1\<rparr>,
      in_flight = [1]\<rparr>"
  by (simp add: start_def init_def enter_def setTimeout_def WATCHDOG_DELAY_def)

theorem watchdog_unblocks_after_deadline_witness:
  "\<not> isProcessing (srv start)
   \<and> held_throughout [Request 2 10, Stored 1 (Fin (1749 / 20)) 5000] (step (Request 1 0) start)
   \<and> (0, 90000) \<in> set (timers (srv (run [Request 2 10, Stored 1 (Fin (1749 / 20)) 5000]
                                       (step (Request 1 0) start))))
   \<and> \<not> isProcessing (srv (step (TimerFired 0 90000)
         (run [Request 2 10, Stored 1 (Fin (1749 / 20)) 5000] (step (Request 1 0) start))))
   \<and> 3 \<in> set (in_flight (step (Request 3 90001) (step (TimerFired 0 90000)
         (run [Request 2 10, Stored 1 (Fin (1749 / 20)) 5000] (step (Request 1 0) start)))))"
proof -
  have a: "\<not> isProcessing (srv start)" by (simp add: start_def init_def)
  have b: "1 \<notin> set (in_flight start)" by (simp add: start_def)
  have n: "next_timer (srv start) = 0" by (simp add: start_def init_def)
  have c: "held_throughout [Request 2 10, Stored 1 (Fin (1749 / 20)) 5000] (step (Request 1 0) start)"
    unfolding step_first_request by (simp add: enter_def store_quote_def)
  have d: "3 \<notin> set (in_flight (run [Request 2 10, Stored 1 (Fin (1749 / 20)) 5000]
                                 (step (Request 1 0) start)))"
    unfolding step_first_request by (simp add: run_def enter_def store_quote_def)
  have e: "(0::int) + 90000 \<le> 90000" by simp
  show ?thesis
    using watchdog_unblocks_after_deadline [OF a b c e d, of 90001] a c n
    by simp
qed

section \<open>The browser calls of one acquisition\<close>

subsection \<open>Sequencing\<close>

lemma seq_Inl: "p calls = (Inl err, calls1) \<Longrightarrow> seq p q calls = (Inl err, calls1)"
  by (simp add: seq_def)

lemma seq_Inr: "p calls = (Inr u, calls1) \<Longrightarrow> seq p q calls = q calls1"
  by (simp add: seq_def)

lemma makes_onlyD: "makes_only C p \<Longrightarrow> \<exists>more. snd (p calls) = calls @ more \<and> set more \<subseteq> C"
  by (simp add: makes_only_def)

lemma makes_only_mono: "makes_only C p \<Longrightarrow> C \<subseteq> D \<Longrightarrow> makes_only D p"
  unfolding makes_only_def by (meson subset_trans)

lemma makes_only_await: "c \<in> C \<Longrightarrow> makes_only C (await e c)"
  by (simp add: makes_only_def await_def split: option.splits)

lemma makes_only_skip: "makes_only C skip"
  by (simp add: makes_only_def skip_def)

lemma makes_only_swallow: "makes_only C p \<Longrightarrow> makes_only C (swallow p)"
  by (simp add: makes_only_def swallow_def)

lemma makes_only_seq:
  assumes "makes_only C p" and "makes_only C q"
  shows "makes_only C (seq p q)"
  unfolding makes_only_def
proof
  fix calls
  obtain r calls1 where p: "p calls = (r, calls1)" by (cases "p calls")
  from makes_onlyD [OF assms(1), of calls] p
  obtain m1 where m1: "calls1 = calls @ m1" "set m1 \<subseteq> C" by auto
  show "\<exists>more. snd (seq p q calls) = calls @ more \<and> set more \<subseteq> C"
  proof (cases r)
    case (Inl err)
    with p m1 show ?thesis by (auto simp: seq_def)
  next
    case (Inr u)
    from makes_onlyD [OF assms(2), of calls1]
    obtain m2 where m2: "snd (q calls1) = calls1 @ m2" "set m2 \<subseteq> C" by auto
    from Inr p have "seq p q calls = q calls1" by (simp add: seq_def)
    with m1 m2 have "snd (seq p q calls) = calls @ (m1 @ m2) \<and> set (m1 @ m2) \<subseteq> C" by simp
    then show ?thesis by blast
  qed
qed


subsection \<open>The calls of each stage\<close>

lemma makes_only_open_session: "makes_only {Launch, NewContext, NewPage} (open_session e)"
  unfolding open_session_def by (intro makes_only_seq makes_only_await) simp_all

lemma makes_only_navigate: "makes_only {GotoHome, WaitCookies, GotoTrading, WaitScripts} (navigate e)"
  unfolding navigate_def by (intro makes_only_seq makes_only_swallow makes_only_await) simp_all

lemma block_check_calls: "snd (block_check e calls) = calls @ [Content]"
  by (simp add: block_check_def seq_def await_def Let_def split: option.splits)

lemma makes_only_block_check: "makes_only {Content} (block_check e)"
  by (simp add: makes_only_def block_check_calls)

lemma makes_only_wait_for_gon: "makes_only {WaitForGon, WaitGrace, GonCheck} (wait_for_gon e)"
  by (auto simp: makes_only_def wait_for_gon_def seq_def await_def split: option.splits)

lemma evaluate_calls: "snd (evaluate e c in_page tag x calls) = calls @ [c]"
  by (simp add: evaluate_def split: option.splits sum.splits)

lemma extract_chain_calls:
  "\<exists>more. snd (extract_chain e calls) = calls @ more \<and> set more \<subseteq> {EvalGon, EvalTable, EvalText}"
  by (simp add: extract_chain_def Let_def evaluate_calls)

lemma makes_only_extract:
  "makes_only {EvalGon, EvalTable, EvalText}
     (\<lambda>calls. case extract_chain e calls of (x, calls1) \<Rightarrow> (quote_of x, calls1))"
  using extract_chain_calls by (simp add: makes_only_def split_beta)

lemma makes_only_try_body:
  "makes_only {Launch, NewContext, NewPage, GotoHome, WaitCookies, GotoTrading, WaitScripts, Content,
               WaitForGon, WaitGrace, GonCheck, EvalGon, EvalTable, EvalText} (try_body e)"
  unfolding try_body_def
  by (intro makes_only_seq
        makes_only_mono [OF makes_only_open_session] makes_only_mono [OF makes_only_navigate]
        makes_only_mono [OF makes_only_block_check] makes_only_mono [OF makes_only_wait_for_gon]
        makes_only_mono [OF makes_only_extract]) auto

lemma try_body_no_close:
  "CloseContext \<notin> set (snd (try_body e [])) \<and> CloseBrowser \<notin> set (snd (try_body e []))"
  using makes_onlyD [OF makes_only_try_body, of e "[]"] by auto

lemma open_session_cases:
  "open_session e calls =
     (case rejects e Launch of
        Some m \<Rightarrow> (Inl (Thrown m), calls @ [Launch])
      | None \<Rightarrow>
          (case rejects e NewContext of
             Some m \<Rightarrow> (Inl (Thrown m), calls @ [Launch, NewContext])
           | None \<Rightarrow>
               (case rejects e NewPage of
                  Some m \<Rightarrow> (Inl (Thrown m), calls @ [Launch, NewContext, NewPage])
                | None \<Rightarrow> (Inr (), calls @ [Launch, NewContext, NewPage]))))"
  by (simp add: open_session_def seq_def await_def split: option.splits)

text \<open>Which of \<open>Launch\<close> and \<open>NewContext\<close> the \<open>try\<close> block got to.\<close>

lemma try_body_Launch: "Launch \<in> set (snd (try_body e []))"
proof -
  obtain r calls1 where o: "open_session e [] = (r, calls1)" by (cases "open_session e []")
  then have l: "Launch \<in> set calls1"
    by (auto simp: open_session_cases split: option.splits)
  show ?thesis
  proof (cases r)
    case (Inl err)
    with o l show ?thesis by (simp add: try_body_def seq_def)
  next
    case (Inr u)
    let ?rest = "seq (navigate e) (seq (block_check e) (seq (wait_for_gon e)
                  (\<lambda>calls. case extract_chain e calls of (x, calls1) \<Rightarrow> (quote_of x, calls1))))"
    have "makes_only UNIV ?rest"
      by (intro makes_only_seq makes_only_mono [OF makes_only_navigate]
            makes_only_mono [OF makes_only_block_check] makes_only_mono [OF makes_only_wait_for_gon]
            makes_only_mono [OF makes_only_extract]) auto
    from makes_onlyD [OF this, of calls1] obtain more where "snd (?rest calls1) = calls1 @ more"
      by blast
    moreover from Inr o have "try_body e [] = ?rest calls1" by (simp add: try_body_def seq_def)
    ultimately show ?thesis using l by simp
  qed
qed

lemma try_body_NewContext:
  "NewContext \<in> set (snd (try_body e [])) \<longleftrightarrow> rejects e Launch = None"
proof -
  obtain r calls1 where o: "open_session e [] = (r, calls1)" by (cases "open_session e []")
  then have l: "NewContext \<in> set calls1 \<longleftrightarrow> rejects e Launch = None"
    by (auto simp: open_session_cases split: option.splits)
  show ?thesis
  proof (cases r)
    case (Inl err)
    with o l show ?thesis by (simp add: try_body_def seq_def)
  next
    case (Inr u)
    let ?rest = "seq (navigate e) (seq (block_check e) (seq (wait_for_gon e)
                  (\<lambda>calls. case extract_chain e calls of (x, calls1) \<Rightarrow> (quote_of x, calls1))))"
    have "makes_only (UNIV - {NewContext}) ?rest"
      by (intro makes_only_seq makes_only_mono [OF makes_only_navigate]
            makes_only_mono [OF makes_only_block_check] makes_only_mono [OF makes_only_wait_for_gon]
            makes_only_mono [OF makes_only_extract]) auto
    from makes_onlyD [OF this, of calls1]
    obtain more where "snd (?rest calls1) = calls1 @ more" "NewContext \<notin> set more"
      by blast
    moreover from Inr o have "try_body e [] = ?rest calls1" by (simp add: try_body_def seq_def)
    ultimately show ?thesis using l by simp
  qed
qed

lemma close_session_calls:
  "snd (close_session e calls) =
     calls @ (if defined_by e NewContext calls then [CloseContext] else [])
           @ (if defined_by e Launch calls then [CloseBrowser] else [])"
  by (simp add: close_session_def seq_def swallow_def skip_def await_def split: option.splits)

lemma close_session_never_throws: "fst (close_session e calls) = Inr ()"
  by (simp add: close_session_def seq_def swallow_def skip_def)

section \<open>The cache is written by a successful acquisition only\<close>

lemma enter_idle:
  assumes "\<not> isProcessing s"
  shows "enter now s = (None, snd (enter now s))"
  using assms by (simp add: enter_def setTimeout_def)

lemma api_price_failed:
  assumes "\<not> isProcessing s" and "try_body e [] = (Inl err, calls)"
  shows "api_price e now s
         = (failure_response err, release_guard (snd (enter now s)), snd (close_session e calls))"
  using assms(2) by (subst api_price_def, subst enter_idle [OF assms(1)]) simp

lemma api_price_fresh:
  assumes "\<not> isProcessing s" and "try_body e [] = (Inr (p, m), calls)"
  shows "api_price e now s
         = (fresh_response (toFixed2 p) (reply_time e) m,
            release_guard (store_quote p (store_time e) (snd (enter now s))),
            snd (close_session e calls))"
  using assms(2) by (subst api_price_def, subst enter_idle [OF assms(1)]) simp

lemma api_price_busy:
  assumes "isProcessing s"
  shows "api_price e now s = (the (fst (enter now s)), s, [])"
  using assms by (simp add: api_price_def enter_def split: option.splits)

lemma step_cache_frame:
  assumes "\<forall>r p t. ev \<noteq> Stored r p t"
  shows "lastPrice (srv (step ev y)) = lastPrice (srv y)
         \<and> lastPriceTime (srv (step ev y)) = lastPriceTime (srv y)"
proof (cases ev)
  case (Request r now)
  then show ?thesis using enter_cache [of now "srv y"]
    by (cases "enter now (srv y)") (auto split: option.splits)
next
  case (Stored r p now)
  with assms show ?thesis by blast
next
  case (Finished r)
  then show ?thesis by (simp add: release_guard_cache)
next
  case (TimerFired h now)
  then show ?thesis by (simp add: watchdog_cache clearTimeout_cache)
next
  case Rejection
  then show ?thesis by (simp add: unhandledRejection_cache)
qed

text \<open>
  C7. Whatever the browser and the site do, a request whose reply is not a success
  (a rejected call, a blocked page, no price found, the busy reply) leaves
  \<open>lastPrice\<close> and \<open>lastPriceTime\<close> as they were. When one of them changed, the
  reply is the fresh success that carries the new price, stored at the time of line 348.
  Among the events of the interleaved model only the cache write of a successful
  acquisition touches the two variables.
\<close>

theorem failed_acquisition_keeps_cache:
  assumes "api_price e now s = (reply, s', calls)"
  shows "(\<not> success reply \<longrightarrow> lastPrice s' = lastPrice s \<and> lastPriceTime s' = lastPriceTime s)
       \<and> (lastPrice s' \<noteq> lastPrice s \<or> lastPriceTime s' \<noteq> lastPriceTime s \<longrightarrow>
            success reply \<and> status reply = 200 \<and> cached reply = None
            \<and> price reply = lastPrice s' \<and> lastPriceTime s' = store_time e)
       \<and> ((\<forall>r p t. ev \<noteq> Stored r p t) \<longrightarrow>
            lastPrice (srv (step ev y)) = lastPrice (srv y)
            \<and> lastPriceTime (srv (step ev y)) = lastPriceTime (srv y))"
proof (cases "isProcessing s")
  case True
  from assms have "s' = s"
    by (simp add: api_price_busy [OF True])
  then show ?thesis using step_cache_frame [of ev y] by simp
next
  case False
  obtain r calls1 where t: "try_body e [] = (r, calls1)" by (cases "try_body e []")
  show ?thesis
  proof (cases r)
    case (Inl err)
    with t assms api_price_failed [OF False, of e err calls1 now]
    have "reply = failure_response err" and "s' = release_guard (snd (enter now s))"
      by simp_all
    then show ?thesis
      using step_cache_frame [of ev y] enter_cache [of now s]
      by (simp add: release_guard_cache failure_response_def)
  next
    case (Inr pm)
    obtain p m where pm: "pm = (p, m)" by (cases pm)
    with Inr t assms api_price_fresh [OF False, of e p m calls1 now]
    have "reply = fresh_response (toFixed2 p) (reply_time e) m"
      and "s' = release_guard (store_quote p (store_time e) (snd (enter now s)))"
      by simp_all
    then show ?thesis
      using step_cache_frame [of ev y]
      by (simp add: release_guard_cache fresh_response_def store_quote_def)
  qed
qed

lemma try_body_launch_fails:
  "try_body (env_of (gon_page NoGon)\<lparr>rejects := failing Launch\<rparr>) [] = (Inl (Thrown (str ''Target closed'')), [Launch])"
  by (simp add: try_body_def open_session_cases seq_def failing_def env_of_def)

lemma api_price_launch_fails:
  "api_price (env_of (gon_page NoGon)\<lparr>rejects := failing Launch\<rparr>) 6000 cached_state
    = (failure_response (Thrown (str ''Target closed'')), cached_state\<lparr>next_timer := 2\<rparr>, [Launch])"
proof -
  have idle: "\<not> isProcessing cached_state" by (simp add: cached_state_def)
  show ?thesis
    unfolding api_price_failed [OF idle try_body_launch_fails]
    by (simp add: cached_state_def enter_def setTimeout_def release_guard_def clearTimeout_def
          close_session_calls defined_by_def failing_def env_of_def)
qed

theorem failed_acquisition_keeps_cache_witness:
  "\<not> success (failure_response (Thrown (str ''Target closed'')))
   \<and> lastPrice (cached_state\<lparr>next_timer := 2\<rparr>) = lastPrice cached_state
   \<and> lastPriceTime (cached_state\<lparr>next_timer := 2\<rparr>) = lastPriceTime cached_state
   \<and> lastPrice (srv (step (Finished 1) (run [Request 1 0, Stored 1 (Fin (1749 / 20)) 5000] start)))
       = Some (str ''87.45'')"
proof -
  have a: "\<not> success (failure_response (Thrown (str ''Target closed'')))"
    by (simp add: failure_response_def)
  have b: "\<forall>r p t. Finished 1 \<noteq> Stored r p t" by simp
  have c: "lastPrice (srv (run [Request 1 0, Stored 1 (Fin (1749 / 20)) 5000] start)) = Some (str ''87.45'')"
    unfolding run_admitted_then_stored by simp
  show ?thesis
    using failed_acquisition_keeps_cache [OF api_price_launch_fails, of "Finished 1"
            "run [Request 1 0, Stored 1 (Fin (1749 / 20)) 5000] start"] a b c
    by simp
qed

section \<open>The extraction chain\<close>

subsection \<open>Usable prices\<close>

lemma unusable_iff: "unusable x \<longleftrightarrow> \<not> usable x"
proof (cases x)
  case None
  then show ?thesis by simp
next
  case (Some n)
  then show ?thesis by (cases n) auto
qed

lemma usable_cases: "usable (Some n) \<longleftrightarrow> n = PosInf \<or> (\<exists>q. n = Fin q \<and> 0 < q)"
  by (cases n) auto

lemma gon_strategy_iff:
  "gon_strategy (Ticker v) =
     (if truthy v \<and> parseFloat_val v \<noteq> NaN \<and> js_gt (parseFloat_val v) (Fin 0)
      then Some (parseFloat_val v) else None)"
  by (cases "parseFloat_val v") (simp_all add: isNaN_def Let_def)

lemma gon_strategy_usable:
  assumes "gon_strategy g = Some p"
  shows "usable (Some p)"
proof (cases g)
  case (Ticker v)
  have "(if truthy v \<and> parseFloat_val v \<noteq> NaN \<and> js_gt (parseFloat_val v) (Fin 0)
         then Some (parseFloat_val v) else None) = Some p"
    using assms Ticker gon_strategy_iff [of v] by (simp del: gon_strategy.simps)
  then have "p \<noteq> NaN \<and> js_gt p (Fin 0)"
    by (auto split: if_splits)
  then show ?thesis by (cases p) auto
qed (use assms in simp_all)

lemma in_price_range_cases: "in_price_range p \<longleftrightarrow> (\<exists>q. p = Fin q \<and> 50 \<le> q \<and> q \<le> 150)"
  by (cases p) (auto simp: in_price_range_def js_ge_def)

lemma in_price_range_usable: "in_price_range p \<Longrightarrow> usable (Some p)"
  by (auto simp: in_price_range_cases)

lemma scan_cells_range: "scan_cells cells = Some p \<Longrightarrow> in_price_range p"
  by (induction cells) (auto simp: Let_def split: option.splits if_splits)

lemma first_some_Some: "first_some f xs = Some y \<Longrightarrow> \<exists>x \<in> set xs. f x = Some y"
  by (induction xs) (auto split: option.splits)

lemma scan_container_range: "scan_container c = Some p \<Longrightarrow> in_price_range p"
  by (auto simp: scan_container_def Let_def scan_cells_range split: if_splits)

lemma table_strategy_range: "table_strategy doc = Some p \<Longrightarrow> in_price_range p"
  by (auto simp: table_strategy_def scan_container_range split: option.splits
           dest!: first_some_Some)

lemma text_strategy_range: "text_strategy t = Some p \<Longrightarrow> in_price_range p"
  by (auto simp: text_strategy_def Let_def split: option.splits if_splits)

lemma table_strategy_usable: "table_strategy doc = Some p \<Longrightarrow> usable (Some p)"
  by (rule in_price_range_usable [OF table_strategy_range])

lemma text_strategy_usable: "text_strategy t = Some p \<Longrightarrow> usable (Some p)"
  by (rule in_price_range_usable [OF text_strategy_range])

lemma gon_yield_usable: "gon_yield e = Some p \<Longrightarrow> usable (Some p)"
  by (rule gon_strategy_usable [of "window_gon (trading_page e)"])
     (simp add: gon_yield_def split: if_splits)

lemma table_yield_range: "table_yield e = Some p \<Longrightarrow> in_price_range p"
  by (auto simp: table_yield_def table_strategy_range split: if_splits)

lemma text_yield_range: "text_yield e = Some p \<Longrightarrow> in_price_range p"
  by (auto simp: text_yield_def text_in_page_def text_strategy_range split: if_splits option.splits)

subsection \<open>The chain\<close>

lemma evaluate_first:
  assumes "\<And>p. r = Some p \<Longrightarrow> usable (Some p)"
  shows "evaluate e c (Inr r) tag (None, None) calls
         = ((if rejects e c = None then r else None,
             if rejects e c = None \<and> r \<noteq> None then Some tag else None), calls @ [c])"
proof (cases r)
  case None
  then show ?thesis by (simp add: evaluate_def split: option.splits)
next
  case (Some p)
  from assms [OF Some] have "usable r" using Some by simp
  with Some show ?thesis by (simp add: evaluate_def split: option.splits)
qed

lemma evaluate_gon:
  "evaluate e EvalGon (Inr (gon_strategy (window_gon (trading_page e)))) GON_TAG (None, None) calls
   = ((gon_yield e, if gon_yield e = None then None else Some GON_TAG), calls @ [EvalGon])"
  by (subst evaluate_first) (auto simp: gon_yield_def dest: gon_strategy_usable)

lemma evaluate_table:
  "evaluate e EvalTable (Inr (table_strategy (document (trading_page e)))) TABLE_TAG (None, None) calls
   = ((table_yield e, if table_yield e = None then None else Some TABLE_TAG), calls @ [EvalTable])"
  by (subst evaluate_first) (auto simp: table_yield_def dest: table_strategy_usable)

lemma evaluate_text:
  "evaluate e EvalText (text_in_page (trading_page e)) TEXT_TAG (None, None) calls
   = ((text_yield e, if text_yield e = None then None else Some TEXT_TAG), calls @ [EvalText])"
proof (cases "text_in_page (trading_page e)")
  case (Inl err)
  then show ?thesis by (simp add: evaluate_def text_yield_def split: option.splits)
next
  case (Inr r)
  then have "\<And>p. r = Some p \<Longrightarrow> usable (Some p)"
    by (auto simp: text_in_page_def split: option.splits dest: text_strategy_usable)
  from evaluate_first [OF this, where e = e and c = EvalText and tag = TEXT_TAG and calls = calls]
    Inr show ?thesis
    by (auto simp: text_yield_def)
qed

lemma extract_chain_eq:
  "extract_chain e calls =
     (case gon_yield e of
        Some p \<Rightarrow> ((Some p, Some GON_TAG), calls @ [EvalGon])
      | None \<Rightarrow>
          (case table_yield e of
             Some p \<Rightarrow> ((Some p, Some TABLE_TAG), calls @ [EvalGon, EvalTable])
           | None \<Rightarrow>
               (case text_yield e of
                  Some p \<Rightarrow> ((Some p, Some TEXT_TAG), calls @ [EvalGon, EvalTable, EvalText])
                | None \<Rightarrow> ((None, None), calls @ [EvalGon, EvalTable, EvalText]))))"
proof (cases "gon_yield e")
  case (Some p)
  then show ?thesis
    using gon_yield_usable [OF Some]
    by (simp add: extract_chain_def Let_def evaluate_gon unusable_iff)
next
  case None
  note g = None
  show ?thesis
  proof (cases "table_yield e")
    case (Some p)
    then show ?thesis
      using in_price_range_usable [OF table_yield_range [OF Some]] g
      by (simp add: extract_chain_def Let_def evaluate_gon evaluate_table unusable_iff)
  next
    case None
    then show ?thesis
      using g
      by (cases "text_yield e")
         (simp_all add: extract_chain_def Let_def evaluate_gon evaluate_table evaluate_text unusable_iff)
  qed
qed

lemma tags_nonempty: "GON_TAG \<noteq> []" "TABLE_TAG \<noteq> []" "TEXT_TAG \<noteq> []"
  by (simp_all add: GON_TAG_def TABLE_TAG_def TEXT_TAG_def str_def)

lemma tags_distinct: "GON_TAG \<noteq> TABLE_TAG" "GON_TAG \<noteq> TEXT_TAG" "TABLE_TAG \<noteq> TEXT_TAG"
  by (simp_all add: GON_TAG_def TABLE_TAG_def TEXT_TAG_def str_def)

lemma quote_of_chain:
  "quote_of (fst (extract_chain e calls)) =
     (case gon_yield e of
        Some p \<Rightarrow> Inr (p, GON_TAG)
      | None \<Rightarrow>
          (case table_yield e of
             Some p \<Rightarrow> Inr (p, TABLE_TAG)
           | None \<Rightarrow>
               (case text_yield e of
                  Some p \<Rightarrow> Inr (p, TEXT_TAG)
                | None \<Rightarrow> Inl Price_not_found)))"
proof (cases "gon_yield e")
  case (Some p)
  with gon_yield_usable [OF Some] show ?thesis
    by (simp add: extract_chain_eq quote_of_def unusable_iff tags_nonempty)
next
  case None
  note g = None
  show ?thesis
  proof (cases "table_yield e")
    case (Some p)
    with in_price_range_usable [OF table_yield_range [OF Some]] g show ?thesis
      by (simp add: extract_chain_eq quote_of_def unusable_iff tags_nonempty)
  next
    case None
    note t = None
    show ?thesis
    proof (cases "text_yield e")
      case (Some p)
      with in_price_range_usable [OF text_yield_range [OF Some]] g t show ?thesis
        by (simp add: extract_chain_eq quote_of_def unusable_iff tags_nonempty)
    next
      case None
      with g t show ?thesis by (simp add: extract_chain_eq quote_of_def)
    qed
  qed
qed

lemma seq_assoc: "seq (seq p q) r = seq p (seq q r)"
  by (intro ext) (simp add: seq_def split: prod.splits sum.splits)

lemma try_body_split:
  "try_body e =
     seq (before_extraction e) (\<lambda>calls. case extract_chain e calls of (x, calls1) \<Rightarrow> (quote_of x, calls1))"
  by (simp add: try_body_def before_extraction_def seq_assoc)

lemma try_body_eq:
  "try_body e calls =
     (case before_extraction e calls of
        (Inl err, calls1) \<Rightarrow> (Inl err, calls1)
      | (Inr u, calls1) \<Rightarrow> (quote_of (fst (extract_chain e calls1)), snd (extract_chain e calls1)))"
  by (simp add: try_body_split seq_def split: prod.splits sum.splits)

section \<open>Releasing the browser session\<close>

lemma await_close_independent:
  assumes "c \<noteq> CloseContext" and "c \<noteq> CloseBrowser"
  shows "await (e\<lparr>rejects := (rejects e)(CloseContext := a, CloseBrowser := b)\<rparr>) c = await e c"
  using assms by (intro ext) (simp add: await_def)

lemma evaluate_close_independent:
  assumes "c \<noteq> CloseContext" and "c \<noteq> CloseBrowser"
  shows "evaluate (e\<lparr>rejects := (rejects e)(CloseContext := a, CloseBrowser := b)\<rparr>) c = evaluate e c"
  using assms by (intro ext) (simp add: evaluate_def)

lemma extract_chain_close_independent:
  "extract_chain (e\<lparr>rejects := (rejects e)(CloseContext := a, CloseBrowser := b)\<rparr>) = extract_chain e"
  by (intro ext) (simp add: extract_chain_def Let_def evaluate_close_independent cong: if_cong)

lemma wait_for_gon_close_independent:
  "wait_for_gon (e\<lparr>rejects := (rejects e)(CloseContext := a, CloseBrowser := b)\<rparr>) = wait_for_gon e"
  by (intro ext) (simp add: wait_for_gon_def await_close_independent split: prod.split sum.split)

lemma try_body_close_independent:
  "try_body (e\<lparr>rejects := (rejects e)(CloseContext := a, CloseBrowser := b)\<rparr>) = try_body e"
  by (simp add: try_body_def open_session_def navigate_def block_check_def
        await_close_independent extract_chain_close_independent wait_for_gon_close_independent)

lemma close_session_close_independent:
  "snd (close_session (e\<lparr>rejects := (rejects e)(CloseContext := a, CloseBrowser := b)\<rparr>) calls)
   = snd (close_session e calls)"
  by (simp add: close_session_calls defined_by_def)

lemma api_price_close_independent:
  "api_price (e\<lparr>rejects := (rejects e)(CloseContext := a, CloseBrowser := b)\<rparr>) now s = api_price e now s"
  by (simp add: api_price_def try_body_close_independent close_session_close_independent
        split: prod.splits sum.splits option.splits)

text \<open>
  C9. For an admitted request, whatever the outcome of the \<open>try\<close> block, the calls of
  the handler are those of the \<open>try\<close> block followed by \<open>context.close()\<close> (when
  a context was created) and then \<open>browser.close()\<close> (when a browser was launched);
  the \<open>try\<close> block itself closes nothing. The release never throws, and whether the
  two closes reject changes neither the reply, nor the state left behind, nor the calls
  made: in particular a failing \<open>context.close()\<close> is still followed by
  \<open>browser.close()\<close>.
\<close>

theorem session_released_on_every_path:
  assumes "\<not> isProcessing s"
  shows "snd (snd (api_price e now s))
           = snd (try_body e [])
             @ (if rejects e Launch = None \<and> rejects e NewContext = None then [CloseContext] else [])
             @ (if rejects e Launch = None then [CloseBrowser] else [])
       \<and> CloseContext \<notin> set (snd (try_body e [])) \<and> CloseBrowser \<notin> set (snd (try_body e []))
       \<and> fst (close_session e calls) = Inr ()
       \<and> api_price (e\<lparr>rejects := (rejects e)(CloseContext := a, CloseBrowser := b)\<rparr>) now s
           = api_price e now s"
proof -
  obtain r calls1 where t: "try_body e [] = (r, calls1)" by (cases "try_body e []")
  have calls: "snd (snd (api_price e now s)) = snd (close_session e calls1)"
  proof (cases r)
    case (Inl err)
    with t api_price_failed [OF assms, of e err calls1 now] show ?thesis by simp
  next
    case (Inr pm)
    obtain p m where "pm = (p, m)" by (cases pm)
    with Inr t api_price_fresh [OF assms, of e p m calls1 now] show ?thesis by simp
  qed
  have l: "Launch \<in> set calls1" using try_body_Launch [of e] t by simp
  have c: "NewContext \<in> set calls1 \<longleftrightarrow> rejects e Launch = None"
    using try_body_NewContext [of e] t by simp
  have "snd (close_session e calls1)
          = calls1 @ (if rejects e Launch = None \<and> rejects e NewContext = None then [CloseContext] else [])
                   @ (if rejects e Launch = None then [CloseBrowser] else [])"
    using l c by (simp add: close_session_calls defined_by_def)
  with calls t show ?thesis
    using try_body_no_close [of e] close_session_never_throws [of e calls]
      api_price_close_independent [of e a b now s]
    by simp
qed


lemma before_extraction_smooth:
  assumes "\<forall>c \<in> {Launch, NewContext, NewPage, GotoHome, WaitCookies, GotoTrading, WaitScripts,
                   Content, WaitForGon}. rejects e c = None"
    and "\<not> str_includes (url (trading_page e)) (str ''exhkqyad'')"
    and "\<not> str_includes (url (trading_page e)) (str ''servicepipe.ru'')"
    and "\<not> str_includes (content (trading_page e)) (str ''servicepipe.ru'')"
  shows "before_extraction e calls
         = (Inr (), calls @ [Launch, NewContext, NewPage, GotoHome, WaitCookies, GotoTrading,
                             WaitScripts, Content, WaitForGon])"
  using assms
  by (simp add: before_extraction_def open_session_cases seq_def navigate_def swallow_def
        await_def block_check_def wait_for_gon_def Let_def)

lemma gon_page_not_blocked:
  "\<not> str_includes (url (gon_page g)) (str ''exhkqyad'')"
  "\<not> str_includes (url (gon_page g)) (str ''servicepipe.ru'')"
  "\<not> str_includes (content (gon_page g)) (str ''servicepipe.ru'')"
  by (simp_all add: gon_page_def str_def)

lemma parseFloat_example: "parseFloat (str ''87.45'') = Fin (1749 / 20)"
  by (simp add: parseFloat_def parse_unsigned_def str_def is_ws_def is_digit_def digits_value_def
        exponent_part_def scale10_def to_double_def Let_def)

lemma gon_example: "gon_strategy (Ticker (JStr (str ''87.45''))) = Some (Fin (1749 / 20))"
proof -
  have "str ''87.45'' \<noteq> []" by (simp add: str_def)
  then show ?thesis by (simp add: parseFloat_example isNaN_def Let_def)
qed

lemma try_body_gon_example:
  "try_body (env_of (gon_page (Ticker (JStr (str ''87.45''))))\<lparr>rejects := failing CloseContext\<rparr>) []
   = (Inr (Fin (1749 / 20), GON_TAG),
      [Launch, NewContext, NewPage, GotoHome, WaitCookies, GotoTrading, WaitScripts, Content,
       WaitForGon, EvalGon])"
proof -
  let ?e = "env_of (gon_page (Ticker (JStr (str ''87.45''))))\<lparr>rejects := failing CloseContext\<rparr>"
  have pg: "trading_page ?e = gon_page (Ticker (JStr (str ''87.45'')))"
    by (simp add: env_of_def)
  have b: "before_extraction ?e []
         = (Inr (), [] @ [Launch, NewContext, NewPage, GotoHome, WaitCookies, GotoTrading,
                           WaitScripts, Content, WaitForGon])"
    by (rule before_extraction_smooth) (simp_all add: pg gon_page_not_blocked, simp add: failing_def)
  have g: "gon_yield ?e = Some (Fin (1749 / 20))"
    unfolding gon_yield_def pg
    by (simp add: gon_page_def gon_example failing_def del: gon_strategy.simps)
  have q: "quote_of (fst (extract_chain ?e c)) = Inr (Fin (1749 / 20), GON_TAG)" for c
    by (simp add: quote_of_chain g)
  have x: "snd (extract_chain ?e c) = c @ [EvalGon]" for c
    by (simp add: extract_chain_eq g)
  show ?thesis
    unfolding try_body_eq b by (simp add: q x)
qed

theorem session_released_on_every_path_witness:
  "\<not> isProcessing cached_state
   \<and> snd (snd (api_price (env_of (gon_page (Ticker (JStr (str ''87.45''))))\<lparr>rejects := failing CloseContext\<rparr>)
                 6000 cached_state))
     = [Launch, NewContext, NewPage, GotoHome, WaitCookies, GotoTrading, WaitScripts, Content,
        WaitForGon, EvalGon, CloseContext, CloseBrowser]"
proof -
  have idle: "\<not> isProcessing cached_state" by (simp add: cached_state_def)
  show ?thesis
    using session_released_on_every_path [OF idle,
            of "env_of (gon_page (Ticker (JStr (str ''87.45''))))\<lparr>rejects := failing CloseContext\<rparr>" 6000]
          idle
    by (simp add: try_body_gon_example failing_def)
qed

section \<open>Block detection\<close>

lemma block_check_blocked:
  assumes "str_includes (url (trading_page e)) (str ''exhkqyad'')
           \<or> str_includes (url (trading_page e)) (str ''servicepipe.ru'')
           \<or> (str_includes (content (trading_page e)) (str ''servicepipe.ru'')
               \<and> length (content (trading_page e)) < 5000)"
  shows "\<exists>err. block_check e calls = (Inl err, calls @ [Content])"
    and "rejects e Content = None \<Longrightarrow>
         block_check e calls =
           (Inl (if str_includes (url (trading_page e)) (str ''exhkqyad'')
                    \<or> str_includes (url (trading_page e)) (str ''servicepipe.ru'')
                 then Blocked_redirect (url (trading_page e)) else Blocked_marker),
            calls @ [Content])"
  using assms by (auto simp: block_check_def seq_def await_def Let_def split: option.splits)

lemma navigate_ok: "rejects e WaitScripts = None \<Longrightarrow> fst (navigate e calls) = Inr ()"
  by (simp add: navigate_def seq_def swallow_def await_def)

lemma try_body_blocked:
  assumes "str_includes (url (trading_page e)) (str ''exhkqyad'')
           \<or> str_includes (url (trading_page e)) (str ''servicepipe.ru'')
           \<or> (str_includes (content (trading_page e)) (str ''servicepipe.ru'')
               \<and> length (content (trading_page e)) < 5000)"
  shows "\<exists>err calls. try_body e [] = (Inl err, calls)
           \<and> set calls \<subseteq> {Launch, NewContext, NewPage, GotoHome, WaitCookies, GotoTrading,
                            WaitScripts, Content}
           \<and> ((\<forall>c \<in> {Launch, NewContext, NewPage, WaitScripts, Content}. rejects e c = None) \<longrightarrow>
                err = (if str_includes (url (trading_page e)) (str ''exhkqyad'')
                          \<or> str_includes (url (trading_page e)) (str ''servicepipe.ru'')
                       then Blocked_redirect (url (trading_page e)) else Blocked_marker))"
proof -
  obtain r1 c1 where o: "open_session e [] = (r1, c1)" by (cases "open_session e []")
  from makes_onlyD [OF makes_only_open_session, of e "[]"] o
  have f1: "set c1 \<subseteq> {Launch, NewContext, NewPage}" by auto
  show ?thesis
  proof (cases r1)
    case (Inl err)
    with o have "try_body e [] = (Inl err, c1)" by (simp add: try_body_def seq_def)
    moreover from Inl o have "\<not> (\<forall>c \<in> {Launch, NewContext, NewPage, WaitScripts, Content}. rejects e c = None)"
      by (auto simp: open_session_cases split: option.splits)
    ultimately show ?thesis using f1 by auto
  next
    case (Inr u)
    obtain r2 c2 where n: "navigate e c1 = (r2, c2)" by (cases "navigate e c1")
    from makes_onlyD [OF makes_only_navigate, of e c1] n
    obtain m2 where m2: "c2 = c1 @ m2" "set m2 \<subseteq> {GotoHome, WaitCookies, GotoTrading, WaitScripts}"
      by auto
    show ?thesis
    proof (cases r2)
      case (Inl err)
      with Inr o n have "try_body e [] = (Inl err, c2)" by (simp add: try_body_def seq_def)
      moreover from Inl n navigate_ok [of e c1]
      have "\<not> (\<forall>c \<in> {Launch, NewContext, NewPage, WaitScripts, Content}. rejects e c = None)"
        by auto
      ultimately show ?thesis using f1 m2 by auto
    next
      case (Inr u2)
      from block_check_blocked(1) [OF assms, of c2]
      obtain err where b: "block_check e c2 = (Inl err, c2 @ [Content])" by blast
      with Inr \<open>r1 = Inr u\<close> o n have t: "try_body e [] = (Inl err, c2 @ [Content])"
        by (simp add: try_body_def seq_def)
      have "(\<forall>c \<in> {Launch, NewContext, NewPage, WaitScripts, Content}. rejects e c = None) \<longrightarrow>
              err = (if str_includes (url (trading_page e)) (str ''exhkqyad'')
                          \<or> str_includes (url (trading_page e)) (str ''servicepipe.ru'')
                     then Blocked_redirect (url (trading_page e)) else Blocked_marker)"
        using block_check_blocked(2) [OF assms, of c2] b by auto
      with t f1 m2 show ?thesis by auto
    qed
  qed
qed

text \<open>
  C6. The page URL contains \<open>exhkqyad\<close> or \<open>servicepipe.ru\<close>, or the page content
  contains \<open>servicepipe.ru\<close> and is shorter than 5000 code units. Then an admitted
  request fails with status 500, and none of the calls that wait for or evaluate the
  extraction strategies is made. When the calls leading to the check succeed, the
  error is the blocking error: the redirect one for a URL match, the marker one
  otherwise.
\<close>

theorem blocked_page_fails_before_extraction:
  assumes "\<not> isProcessing s"
    and "str_includes (url (trading_page e)) (str ''exhkqyad'')
         \<or> str_includes (url (trading_page e)) (str ''servicepipe.ru'')
         \<or> (str_includes (content (trading_page e)) (str ''servicepipe.ru'')
             \<and> length (content (trading_page e)) < 5000)"
  shows "\<not> success (fst (api_price e now s)) \<and> status (fst (api_price e now s)) = 500
       \<and> set (snd (snd (api_price e now s)))
           \<inter> {WaitForGon, WaitGrace, GonCheck, EvalGon, EvalTable, EvalText} = {}
       \<and> ((\<forall>c \<in> {Launch, NewContext, NewPage, WaitScripts, Content}. rejects e c = None) \<longrightarrow>
            error (fst (api_price e now s))
              = Some (if str_includes (url (trading_page e)) (str ''exhkqyad'')
                         \<or> str_includes (url (trading_page e)) (str ''servicepipe.ru'')
                      then Blocked_redirect (url (trading_page e)) else Blocked_marker))"
proof -
  from try_body_blocked [OF assms(2)]
  obtain err calls where tfb: "try_body e [] = (Inl err, calls)
      \<and> set calls \<subseteq> {Launch, NewContext, NewPage, GotoHome, WaitCookies, GotoTrading,
                           WaitScripts, Content}
      \<and> ((\<forall>c \<in> {Launch, NewContext, NewPage, WaitScripts, Content}. rejects e c = None) \<longrightarrow>
              err = (if str_includes (url (trading_page e)) (str ''exhkqyad'')
                          \<or> str_includes (url (trading_page e)) (str ''servicepipe.ru'')
                     then Blocked_redirect (url (trading_page e)) else Blocked_marker))"
    by (elim exE)
  from tfb have t: "try_body e [] = (Inl err, calls)" by (elim conjE)
  from tfb have f: "set calls \<subseteq> {Launch, NewContext, NewPage, GotoHome, WaitCookies, GotoTrading,
                           WaitScripts, Content}" by (elim conjE)
  from tfb have b: "(\<forall>c \<in> {Launch, NewContext, NewPage, WaitScripts, Content}. rejects e c = None) \<longrightarrow>
              err = (if str_includes (url (trading_page e)) (str ''exhkqyad'')
                          \<or> str_includes (url (trading_page e)) (str ''servicepipe.ru'')
                     then Blocked_redirect (url (trading_page e)) else Blocked_marker)" by (elim conjE)
  note a = api_price_failed [OF assms(1) t, of now]
  have "set (snd (close_session e calls)) \<subseteq> set calls \<union> {CloseContext, CloseBrowser}"
    by (auto simp: close_session_calls)
  with f have "set (snd (snd (api_price e now s)))
                 \<inter> {WaitForGon, WaitGrace, GonCheck, EvalGon, EvalTable, EvalText} = {}"
    unfolding a by auto
  moreover have "\<not> success (fst (api_price e now s)) \<and> status (fst (api_price e now s)) = 500"
    unfolding a by (simp add: failure_response_def)
  moreover have "(\<forall>c \<in> {Launch, NewContext, NewPage, WaitScripts, Content}. rejects e c = None) \<longrightarrow>
            error (fst (api_price e now s))
              = Some (if str_includes (url (trading_page e)) (str ''exhkqyad'')
                         \<or> str_includes (url (trading_page e)) (str ''servicepipe.ru'')
                      then Blocked_redirect (url (trading_page e)) else Blocked_marker)"
    unfolding a using b by (auto simp: failure_response_def)
  ultimately show ?thesis by blast
qed

lemma redirected_blocked:
  "str_includes (url (trading_page (env_of redirected_page))) (str ''servicepipe.ru'')"
  by (simp add: env_of_def redirected_page_def gon_page_def str_def)

lemma challenge_blocked:
  "str_includes (content (trading_page (env_of challenge_page))) (str ''servicepipe.ru'')
   \<and> length (content (trading_page (env_of challenge_page))) < 5000"
  by (simp add: env_of_def challenge_page_def gon_page_def str_def)

theorem blocked_page_fails_before_extraction_witness:
  "\<not> isProcessing cached_state
   \<and> str_includes (url (trading_page (env_of redirected_page))) (str ''servicepipe.ru'')
   \<and> error (fst (api_price (env_of redirected_page) 6000 cached_state))
       = Some (Blocked_redirect (str ''https://servicepipe.ru/c''))
   \<and> EvalGon \<notin> set (snd (snd (api_price (env_of redirected_page) 6000 cached_state)))
   \<and> error (fst (api_price (env_of challenge_page) 6000 cached_state)) = Some Blocked_marker"
proof -
  have idle: "\<not> isProcessing cached_state" by (simp add: cached_state_def)
  have q: "\<forall>c \<in> {Launch, NewContext, NewPage, WaitScripts, Content}. rejects (env_of pg) c = None" for pg
    by (simp add: env_of_def quiet_def)
  have u: "url (trading_page (env_of redirected_page)) = str ''https://servicepipe.ru/c''"
    by (simp add: env_of_def redirected_page_def gon_page_def)
  have n1: "\<not> str_includes (url (trading_page (env_of challenge_page))) (str ''exhkqyad'')"
    by (simp add: env_of_def challenge_page_def gon_page_def str_def)
  have n2: "\<not> str_includes (url (trading_page (env_of challenge_page))) (str ''servicepipe.ru'')"
    by (simp add: env_of_def challenge_page_def gon_page_def str_def)
  have b1: "str_includes (url (trading_page (env_of redirected_page))) (str ''exhkqyad'')
         \<or> str_includes (url (trading_page (env_of redirected_page))) (str ''servicepipe.ru'')
         \<or> (str_includes (content (trading_page (env_of redirected_page))) (str ''servicepipe.ru'')
             \<and> length (content (trading_page (env_of redirected_page))) < 5000)"
    using redirected_blocked by blast
  have b2: "str_includes (url (trading_page (env_of challenge_page))) (str ''exhkqyad'')
         \<or> str_includes (url (trading_page (env_of challenge_page))) (str ''servicepipe.ru'')
         \<or> (str_includes (content (trading_page (env_of challenge_page))) (str ''servicepipe.ru'')
             \<and> length (content (trading_page (env_of challenge_page))) < 5000)"
    using challenge_blocked by blast
  show ?thesis
    using blocked_page_fails_before_extraction [OF idle b1, of 6000]
          blocked_page_fails_before_extraction [OF idle b2, of 6000]
          idle redirected_blocked q u n1 n2
    by auto
qed

section \<open>The example pages evaluated\<close>

lemma parseFloat_92: "parseFloat (str ''92.10'') = Fin (921 / 10)"
  by (simp add: parseFloat_def parse_unsigned_def str_def is_ws_def is_digit_def digits_value_def
        exponent_part_def scale10_def to_double_def Let_def)


lemma in_price_range_92: "in_price_range (Fin (921 / 10))"
  by (simp add: in_price_range_def js_ge_def)


lemma toFixed2_92: "toFixed2 (Fin (921 / 10)) = str ''92.10''"
  by (simp add: toFixed2_def fixed2_def digit_char_def str_def Let_def floor_rat_numeral)

lemma parseFloat_0005: "parseFloat (str ''000.5'') = Fin (1 / 2)"
  by (simp add: parseFloat_def parse_unsigned_def str_def is_ws_def is_digit_def digits_value_def
        exponent_part_def scale10_def to_double_def Let_def)

lemma cells_example:
  "scan_cells [Element ''td'' [] [Text (str ''12:00'')],
               Element ''td'' [] [Text (str ''1000.5'')],
               Element ''td'' [] [Text (str '' 92.10 '')]] = Some (Fin (921 / 10))"
proof -
  have a: "price_match (trim (str ''12:00'')) = None"
    by (simp add: str_def trim_def is_ws_def match_at_def match_here_def is_digit_def)
  have b: "price_match (trim (str ''1000.5'')) = Some (str ''000.5'')"
    by (simp add: str_def trim_def is_ws_def match_at_def match_here_def is_digit_def)
  have c: "price_match (trim (str '' 92.10 '')) = Some (str ''92.10'')"
    by (simp add: str_def trim_def is_ws_def match_at_def match_here_def is_digit_def)
  have d: "\<not> in_price_range (Fin (1 / 2))"
    by (simp add: in_price_range_def js_ge_def)
  show ?thesis
    by (simp add: a b c d parseFloat_92 parseFloat_0005 in_price_range_92)
qed

lemma container_example:
  "scan_container (Element ''div'' (str ''panel'')
                [Element ''p'' [] [Text (replicate 100 120)],
                 Element ''h3'' [] [Text LAST_TRADES],
                 trades_table]) = Some (Fin (921 / 10))"
proof -
  have np: "\<not> str_includes (str ''panel'') (str ''row'')" "\<not> str_includes (str ''panel'') (str ''trade'')"
           "\<not> str_includes (str ''panel'') (str ''cell'')"
    by (simp_all add: str_def)
  have e: "str ''row'' \<noteq> []" "str ''trade'' \<noteq> []" "str ''cell'' \<noteq> []"
    by (simp_all add: str_def)
  show ?thesis
    by (simp add: scan_container_def querySelectorAll_def trades_table_def np e Let_def
          cells_example del: scan_cells.simps)
qed

lemma table_strategy_example:
  "table_strategy (document table_page) = Some (Fin (921 / 10))"
proof -
  let ?panel = "Element ''div'' (str ''panel'')
                [Element ''p'' [] [Text (replicate 100 120)],
                 Element ''h3'' [] [Text LAST_TRADES],
                 trades_table]"
  let ?doc = "Element ''html'' [] [Element ''head'' [] [], Element ''body'' [] [?panel]]"
  have d: "document table_page = ?doc"
    by (simp add: table_page_def)
  have paths: "element_paths [] ?doc = [[], [0], [1], [1, 0], [1, 0, 0], [1, 0, 1], [1, 0, 2],
                  [1, 0, 2, 0], [1, 0, 2, 0, 0], [1, 0, 2, 1], [1, 0, 2, 1, 0], [1, 0, 2, 1, 1], [1, 0, 2, 1, 2]]"
    by (simp add: trades_table_def)
  have long: "length (textContent ?panel) \<ge> 100"
    by simp
  have s0: "\<not> is_last_trades_section ?doc []"
    using long by (simp add: is_last_trades_section_def)
  have s1: "\<not> is_last_trades_section ?doc [0]"
    by (simp add: is_last_trades_section_def)
  have s2: "\<not> is_last_trades_section ?doc [1]"
    using long by (simp add: is_last_trades_section_def)
  have s3: "\<not> is_last_trades_section ?doc [1, 0]"
    using long by (simp add: is_last_trades_section_def)
  have x: "\<not> str_includes (replicate n 120) LAST_TRADES" for n
    by (induction n) (simp_all add: LAST_TRADES_def)
  have s4: "\<not> is_last_trades_section ?doc [1, 0, 0]"
    using x by (simp add: is_last_trades_section_def)
  have s5: "is_last_trades_section ?doc [1, 0, 1]"
    by (simp add: is_last_trades_section_def) (simp add: LAST_TRADES_def)
  have f: "find (is_last_trades_section ?doc) (element_paths [] ?doc) = Some [1, 0, 1]"
    unfolding paths using s0 s1 s2 s3 s4 s5 by simp
  have b: "document_body ?doc = Some [1]"
    by simp
  have a: "ancestors [Suc 0, 0, Suc 0] = [[Suc 0, 0], [Suc 0], []]"
    by (simp add: ancestors_def upt_rec numeral_eq_Suc)
  show ?thesis
    unfolding d table_strategy_def f
    by (simp add: b a container_example)
qed

lemma gon_page_fields:
  "window_gon (gon_page g) = g"
  "document (gon_page g) = Element ''html'' [] [Element ''head'' [] [], Element ''body'' [] []]"
  "body_innerText (gon_page g) = []"
  by (simp_all add: gon_page_def)




lemma table_page_yields:
  "gon_yield (env_of table_page) = None"
  "table_yield (env_of table_page) = Some (Fin (921 / 10))"
proof -
  show "gon_yield (env_of table_page) = None"
    by (simp add: gon_yield_def env_of_def table_page_def gon_page_fields)
  have "table_yield (env_of table_page) = table_strategy (document table_page)"
    by (simp add: table_yield_def env_of_def quiet_def)
  then show "table_yield (env_of table_page) = Some (Fin (921 / 10))"
    by (simp only: table_strategy_example)
qed

lemma env_of_smooth:
  assumes "url pg = url (gon_page g)" and "content pg = content (gon_page g)"
  shows "before_extraction (env_of pg) calls
         = (Inr (), calls @ [Launch, NewContext, NewPage, GotoHome, WaitCookies, GotoTrading,
                             WaitScripts, Content, WaitForGon])"
  by (rule before_extraction_smooth)
     (simp_all add: env_of_def quiet_def assms gon_page_not_blocked)

section \<open>The order of the strategies\<close>

lemma before_extraction_ok:
  assumes "before_extraction e calls = (Inr (), calls0)"
  shows "rejects e Launch = None \<and> rejects e NewContext = None \<and> Launch \<in> set calls0
         \<and> NewContext \<in> set calls0"
proof -
  obtain r1 c1 where o: "open_session e calls = (r1, c1)" by (cases "open_session e calls")
  show ?thesis
  proof (cases r1)
    case (Inl err)
    with o assms show ?thesis by (simp add: before_extraction_def seq_def)
  next
    case (Inr u)
    with o have ok: "rejects e Launch = None \<and> rejects e NewContext = None"
      and c1: "c1 = calls @ [Launch, NewContext, NewPage]"
      by (auto simp: open_session_cases split: option.splits)
    let ?rest = "seq (navigate e) (seq (block_check e) (wait_for_gon e))"
    have "makes_only UNIV ?rest"
      by (intro makes_only_seq makes_only_mono [OF makes_only_navigate]
            makes_only_mono [OF makes_only_block_check] makes_only_mono [OF makes_only_wait_for_gon])
         auto
    from makes_onlyD [OF this, of c1] obtain more where "snd (?rest c1) = c1 @ more" by blast
    moreover from Inr o assms have "?rest c1 = (Inr (), calls0)"
      by (simp add: before_extraction_def seq_def)
    ultimately have "calls0 = c1 @ more" by simp
    with ok c1 show ?thesis by simp
  qed
qed

lemma admitted_calls:
  assumes "\<not> isProcessing s" and "try_body e [] = (r, calls)"
  shows "snd (snd (api_price e now s)) = snd (close_session e calls)"
proof (cases r)
  case (Inl err)
  with assms api_price_failed [OF assms(1), of e err calls now] show ?thesis by simp
next
  case (Inr pm)
  obtain p m where "pm = (p, m)" by (cases pm)
  with Inr assms api_price_fresh [OF assms(1), of e p m calls now] show ?thesis by simp
qed

lemma api_price_extracting:
  assumes "\<not> isProcessing s" and "before_extraction e [] = (Inr (), calls0)"
  shows "fst (api_price e now s) =
           (case quote_of (fst (extract_chain e calls0)) of
              Inr (p, m) \<Rightarrow> fresh_response (toFixed2 p) (reply_time e) m
            | Inl err \<Rightarrow> failure_response err)"
    and "snd (snd (api_price e now s)) = snd (extract_chain e calls0) @ [CloseContext, CloseBrowser]"
proof -
  have t: "try_body e [] = (quote_of (fst (extract_chain e calls0)), snd (extract_chain e calls0))"
    by (simp add: try_body_eq assms(2))
  show "fst (api_price e now s) =
           (case quote_of (fst (extract_chain e calls0)) of
              Inr (p, m) \<Rightarrow> fresh_response (toFixed2 p) (reply_time e) m
            | Inl err \<Rightarrow> failure_response err)"
  proof (cases "quote_of (fst (extract_chain e calls0))")
    case (Inl err)
    with t api_price_failed [OF assms(1), of e err "snd (extract_chain e calls0)" now]
    show ?thesis by simp
  next
    case (Inr pm)
    obtain p m where "pm = (p, m)" by (cases pm)
    with Inr t api_price_fresh [OF assms(1), of e p m "snd (extract_chain e calls0)" now]
    show ?thesis by simp
  qed
  from extract_chain_calls [of e calls0]
  obtain more where m: "snd (extract_chain e calls0) = calls0 @ more" by blast
  from before_extraction_ok [OF assms(2)] m
  have "defined_by e NewContext (snd (extract_chain e calls0))"
    and "defined_by e Launch (snd (extract_chain e calls0))"
    by (simp_all add: defined_by_def)
  then show "snd (snd (api_price e now s)) = snd (extract_chain e calls0) @ [CloseContext, CloseBrowser]"
    by (simp add: admitted_calls [OF assms(1) t] close_session_calls)
qed



section \<open>Where the price of a reply comes from\<close>

lemma quote_source:
  assumes "quote_of (fst (extract_chain e calls)) = Inr (p, m)"
  shows "(m = GON_TAG \<and> gon_yield e = Some p) \<or> (m = TABLE_TAG \<and> table_yield e = Some p)
         \<or> (m = TEXT_TAG \<and> text_yield e = Some p)"
  using assms by (auto simp: quote_of_chain split: option.splits)

lemma try_body_source:
  assumes "try_body e [] = (Inr (p, m), calls)"
  shows "(m = GON_TAG \<and> gon_yield e = Some p) \<or> (m = TABLE_TAG \<and> table_yield e = Some p)
         \<or> (m = TEXT_TAG \<and> text_yield e = Some p)"
proof -
  obtain r c1 where b: "before_extraction e [] = (r, c1)" by (cases "before_extraction e []")
  with assms have "quote_of (fst (extract_chain e c1)) = Inr (p, m)"
    by (cases r) (simp_all add: try_body_eq)
  then show ?thesis by (rule quote_source)
qed

lemma busy_reply_shape:
  assumes "isProcessing s" and "api_price e now s = (reply, s', calls)"
  shows "reply = busy_response
         \<or> (\<exists>c. lastPrice s = Some c \<and> reply = cached_response c (lastPriceTime s))"
  using assms enter_busy(2) [OF assms(1), of now]
  by (auto simp: api_price_busy)

lemma tagged_reply_source:
  assumes "api_price e now s = (reply, s', calls)" and "method_tag reply = Some m"
  shows "\<exists>p. reply = fresh_response (toFixed2 p) (reply_time e) m
             \<and> lastPrice s' = Some (toFixed2 p) \<and> \<not> isProcessing s
             \<and> ((m = GON_TAG \<and> gon_yield e = Some p) \<or> (m = TABLE_TAG \<and> table_yield e = Some p)
                \<or> (m = TEXT_TAG \<and> text_yield e = Some p))"
proof (cases "isProcessing s")
  case True
  from busy_reply_shape [OF True assms(1)] assms(2) show ?thesis
    by (auto simp: busy_response_def cached_response_def)
next
  case False
  obtain r c where t: "try_body e [] = (r, c)" by (cases "try_body e []")
  show ?thesis
  proof (cases r)
    case (Inl err)
    with t assms api_price_failed [OF False, of e err c now] show ?thesis
      by (auto simp: failure_response_def)
  next
    case (Inr pm)
    obtain p m' where pm: "pm = (p, m')" by (cases pm)
    with Inr t assms(1) api_price_fresh [OF False, of e p m' c now]
    have reply: "reply = fresh_response (toFixed2 p) (reply_time e) m'"
      and s': "s' = release_guard (store_quote p (store_time e) (snd (enter now s)))"
      by simp_all
    from reply assms(2) have m: "m' = m" by (simp add: fresh_response_def)
    from s' have "lastPrice s' = Some (toFixed2 p)"
      by (simp add: release_guard_cache store_quote_def)
    with reply m False try_body_source [of e p m c] Inr pm t show ?thesis by auto
  qed
qed

section \<open>The price range of the fallback strategies\<close>

text \<open>
  C10. A reply whose method tag is the table tag or the text tag carries a price that
  is the two-decimal rendering of a number between 50 and 150, both included, and
  that price is what the cache holds afterwards. The first strategy has no such bound:
  it returns every field value that parses to a number above zero.
\<close>

theorem fallback_prices_in_range:
  assumes "api_price e now s = (reply, s', calls)"
    and "method_tag reply = Some TABLE_TAG \<or> method_tag reply = Some TEXT_TAG"
  shows "(\<exists>q. 50 \<le> q \<and> q \<le> 150 \<and> price reply = Some (toFixed2 (Fin q))
              \<and> lastPrice s' = Some (toFixed2 (Fin q)))
       \<and> (\<forall>v q. truthy v \<and> parseFloat_val v = Fin q \<and> 0 < q \<longrightarrow>
              gon_strategy (Ticker v) = Some (Fin q))"
proof
  from assms(2) obtain m where m: "method_tag reply = Some m" "m = TABLE_TAG \<or> m = TEXT_TAG"
    by blast
  from tagged_reply_source [OF assms(1) m(1)]
  obtain p where reply: "reply = fresh_response (toFixed2 p) (reply_time e) m"
    and cache: "lastPrice s' = Some (toFixed2 p)"
    and src: "(m = GON_TAG \<and> gon_yield e = Some p) \<or> (m = TABLE_TAG \<and> table_yield e = Some p)
                \<or> (m = TEXT_TAG \<and> text_yield e = Some p)"
    by blast
  from src m(2) tags_distinct have "table_yield e = Some p \<or> text_yield e = Some p"
    by auto
  then have "in_price_range p"
    using table_yield_range text_yield_range by blast
  then obtain q where "p = Fin q" "50 \<le> q" "q \<le> 150"
    by (auto simp: in_price_range_cases)
  with reply cache show "\<exists>q. 50 \<le> q \<and> q \<le> 150 \<and> price reply = Some (toFixed2 (Fin q))
              \<and> lastPrice s' = Some (toFixed2 (Fin q))"
    by (auto simp: fresh_response_def)
next
  show "\<forall>v q. truthy v \<and> parseFloat_val v = Fin q \<and> 0 < q \<longrightarrow>
              gon_strategy (Ticker v) = Some (Fin q)"
    by (simp add: gon_strategy_iff del: gon_strategy.simps)
qed

lemma api_price_table_page:
  "fst (api_price (env_of table_page) 0 init) = fresh_response (str ''92.10'') 1001 TABLE_TAG"
proof -
  have idle: "\<not> isProcessing init" by (simp add: init_def)
  have b: "before_extraction (env_of table_page) []
         = (Inr (), [] @ [Launch, NewContext, NewPage, GotoHome, WaitCookies, GotoTrading,
                             WaitScripts, Content, WaitForGon])"
    by (rule env_of_smooth [of _ NoGon]) (simp_all add: table_page_def)
  have r: "reply_time (env_of table_page) = 1001" by (simp add: env_of_def)
  show ?thesis
    unfolding api_price_extracting(1) [OF idle b] quote_of_chain
    by (simp add: table_page_yields toFixed2_92 r)
qed

theorem fallback_prices_in_range_witness:
  "method_tag (fst (api_price (env_of table_page) 0 init)) = Some TABLE_TAG
   \<and> (\<exists>q. 50 \<le> q \<and> q \<le> 150
          \<and> price (fst (api_price (env_of table_page) 0 init)) = Some (toFixed2 (Fin q)))
   \<and> gon_strategy (Ticker (JNum (Fin 100000))) = Some (Fin 100000)"
proof -
  have m: "method_tag (fst (api_price (env_of table_page) 0 init)) = Some TABLE_TAG"
    by (simp add: api_price_table_page fresh_response_def)
  have t: "truthy (JNum (Fin 100000)) \<and> parseFloat_val (JNum (Fin 100000)) = Fin 100000
           \<and> (0::rat) < 100000"
    by simp
  have p: "api_price (env_of table_page) 0 init
           = (fst (api_price (env_of table_page) 0 init),
              fst (snd (api_price (env_of table_page) 0 init)),
              snd (snd (api_price (env_of table_page) 0 init)))"
    by simp
  from fallback_prices_in_range [OF p disjI1 [OF m]] m t show ?thesis
    by blast
qed


section \<open>What the first strategy accepts\<close>

text \<open>
  C3, amended. The first strategy returns the parsed value of \<open>window.gon.ticker.last\<close>
  exactly when the field is truthy and the parsed value is not NaN and greater than
  zero. A field that parses to NaN, to zero, to a negative number or to negative
  infinity gives \<open>null\<close>, as does a missing \<open>gon\<close> or \<open>ticker\<close>. Whatever the
  strategy returns is positive infinity or a finite number above zero.
\<close>

theorem gon_strategy_accepts_positive:
  "gon_strategy (Ticker v) =
     (if truthy v \<and> parseFloat_val v \<noteq> NaN \<and> js_gt (parseFloat_val v) (Fin 0)
      then Some (parseFloat_val v) else None)
   \<and> (parseFloat_val v = NaN \<or> parseFloat_val v = NegInf \<or> (\<exists>q. parseFloat_val v = Fin q \<and> q \<le> 0)
        \<longrightarrow> gon_strategy (Ticker v) = None)
   \<and> (\<forall>n. gon_strategy g = Some n \<longrightarrow> n = PosInf \<or> (\<exists>q. n = Fin q \<and> 0 < q))
   \<and> gon_strategy NoGon = None \<and> gon_strategy NoTicker = None"
proof (intro conjI)
  show "gon_strategy (Ticker v) =
     (if truthy v \<and> parseFloat_val v \<noteq> NaN \<and> js_gt (parseFloat_val v) (Fin 0)
      then Some (parseFloat_val v) else None)"
    by (rule gon_strategy_iff)
  show "parseFloat_val v = NaN \<or> parseFloat_val v = NegInf \<or> (\<exists>q. parseFloat_val v = Fin q \<and> q \<le> 0)
        \<longrightarrow> gon_strategy (Ticker v) = None"
    unfolding gon_strategy_iff by auto
  show "\<forall>n. gon_strategy g = Some n \<longrightarrow> n = PosInf \<or> (\<exists>q. n = Fin q \<and> 0 < q)"
    using gon_strategy_usable [of g] by (simp add: usable_cases del: usable.simps)
qed simp_all

lemma parseFloat_minus3: "parseFloat (str ''-3'') = Fin (- 3)"
  by (simp add: parseFloat_def parse_unsigned_def str_def is_ws_def is_digit_def digits_value_def
        exponent_part_def scale10_def to_double_def js_neg_def Let_def)

theorem gon_strategy_accepts_positive_witness:
  "parseFloat_val (JStr (str ''-3'')) = Fin (- 3)
   \<and> gon_strategy (Ticker (JStr (str ''-3''))) = None
   \<and> gon_strategy (Ticker (JStr (str ''87.45''))) = Some (Fin (1749 / 20))
   \<and> (Fin (1749 / 20) = PosInf \<or> (\<exists>q. Fin (1749 / 20) = Fin q \<and> 0 < q))"
proof -
  have a: "parseFloat_val (JStr (str ''-3'')) = Fin (- 3)"
    by (simp add: parseFloat_minus3)
  then have b: "parseFloat_val (JStr (str ''-3'')) = NaN \<or> parseFloat_val (JStr (str ''-3'')) = NegInf
                \<or> (\<exists>q. parseFloat_val (JStr (str ''-3'')) = Fin q \<and> q \<le> 0)"
    by simp
  from gon_strategy_accepts_positive [of "JStr (str ''-3'')" "Ticker (JStr (str ''87.45''))"]
    a b gon_example
  show ?thesis by (simp del: gon_strategy.simps parseFloat_val.simps)
qed

lemma parseFloat_Infinity: "parseFloat (str ''Infinity'') = PosInf"
  by (simp add: parseFloat_def parse_unsigned_def str_def is_ws_def)

lemma toFixed2_PosInf: "toFixed2 PosInf = str ''Infinity''"
  by (simp add: toFixed2_def)

lemma api_price_gon_page:
  assumes "gon_strategy g = Some p"
  shows "fst (api_price (env_of (gon_page g)) 0 init) = fresh_response (toFixed2 p) 1001 GON_TAG"
proof -
  have idle: "\<not> isProcessing init" by (simp add: init_def)
  have b: "before_extraction (env_of (gon_page g)) []
         = (Inr (), [] @ [Launch, NewContext, NewPage, GotoHome, WaitCookies, GotoTrading,
                             WaitScripts, Content, WaitForGon])"
    by (rule env_of_smooth [of _ g]) simp_all
  have r: "reply_time (env_of (gon_page g)) = 1001" by (simp add: env_of_def)
  have y: "gon_yield (env_of (gon_page g)) = Some p"
    using assms by (simp add: gon_yield_def env_of_def quiet_def gon_page_fields)
  show ?thesis
    unfolding api_price_extracting(1) [OF idle b] quote_of_chain
    by (simp add: y r)
qed

text \<open>
  C3 as stated fails for a non-finite value: the field \<open>"Infinity"\<close> parses to positive
  infinity, which is not NaN and not \<open><= 0\<close>; the strategy returns it and the reply
  carries the price \<open>"Infinity"\<close>.
\<close>

theorem infinite_price_accepted:
  "parseFloat_val (JStr (str ''Infinity'')) = PosInf
   \<and> gon_strategy (Ticker (JStr (str ''Infinity''))) = Some PosInf
   \<and> fst (api_price (env_of (gon_page (Ticker (JStr (str ''Infinity''))))) 0 init)
       = fresh_response (str ''Infinity'') 1001 GON_TAG"
proof -
  have ne: "str ''Infinity'' \<noteq> []" by (simp add: str_def)
  have g: "gon_strategy (Ticker (JStr (str ''Infinity''))) = Some PosInf"
    by (simp add: ne parseFloat_Infinity isNaN_def Let_def)
  from api_price_gon_page [OF g] g show ?thesis
    by (simp add: parseFloat_Infinity toFixed2_PosInf del: gon_strategy.simps)
qed

section \<open>The shape of a successful reply\<close>







lemma yields_usable:
  assumes "(m = GON_TAG \<and> gon_yield e = Some p) \<or> (m = TABLE_TAG \<and> table_yield e = Some p)
           \<or> (m = TEXT_TAG \<and> text_yield e = Some p)"
  shows "usable (Some p)"
    and "m = GON_TAG \<or> ((m = TABLE_TAG \<or> m = TEXT_TAG) \<and> in_price_range p)"
  using assms gon_yield_usable [of e p] table_yield_range [of e p] text_yield_range [of e p]
    in_price_range_usable [of p]
  by (auto simp del: usable.simps)








section \<open>The handler as a run of events\<close>

text \<open>
  The handler run alone leaves the state that its pieces leave when the event loop runs
  them one after the other.
\<close>

lemma api_price_as_events:
  assumes "\<not> isProcessing (srv y)" and "r \<notin> set (in_flight y)"
  shows "try_body e [] = (Inr (p, m), calls) \<Longrightarrow>
           fst (snd (api_price e now (srv y)))
           = srv (run [Request r now, Stored r p (store_time e), Finished r] y)"
    and "try_body e [] = (Inl err, calls) \<Longrightarrow>
           fst (snd (api_price e now (srv y))) = srv (run [Request r now, Finished r] y)"
proof -
  have en: "enter now (srv y) = (None, snd (enter now (srv y)))"
    by (rule enter_idle [OF assms(1)])
  have st: "step (Request r now) y = y\<lparr>srv := snd (enter now (srv y)), in_flight := in_flight y @ [r]\<rparr>"
    using assms(2) by (simp, subst en) simp
  {
    assume t: "try_body e [] = (Inr (p, m), calls)"
    from try_body_source [OF t] have "usable (Some p)"
      by (rule yields_usable(1))
    then have "\<not> unusable (Some p)" by (simp add: unusable_iff del: usable.simps unusable.simps)
    then show "fst (snd (api_price e now (srv y)))
           = srv (run [Request r now, Stored r p (store_time e), Finished r] y)"
      unfolding api_price_fresh [OF assms(1) t] run_def
      by (simp add: st del: step.simps(1) unusable.simps)
  }
  {
    assume t: "try_body e [] = (Inl err, calls)"
    show "fst (snd (api_price e now (srv y))) = srv (run [Request r now, Finished r] y)"
      unfolding api_price_failed [OF assms(1) t] run_def
      by (simp add: st del: step.simps(1))
  }
qed

end
